theory Spec2Isabelle
  imports Main "HOL-Library.AList" "HOL-Library.Sublist"
begin

section \<open>The ingestion pipeline of scripts/ingest\_data.py\<close>

text \<open>
  The script reads every CSV file matching a glob pattern with Polars, renames drifted
  columns through a schema map, casts every column to text, collects the frames in a
  batch and writes the batch to a PostgreSQL table through pandas. The embedding below
  follows \<^verbatim>\<open>ingest_files\<close> and \<^verbatim>\<open>main\<close> line by line. The file system, the
  CSV parser and the database are outside the script: they are fields of an environment
  record, so a theorem about the loop holds for every file system and every sink
  behaviour. The Polars operations the script calls (\<^verbatim>\<open>rename\<close>, \<^verbatim>\<open>cast\<close>,
  \<^verbatim>\<open>concat\<close>) are modelled by what the library does on the frames the script passes.
  Only the table reset is stated on a concrete relational sink.
\<close>

subsection \<open>Data frames\<close>

text \<open>
  A value of a Polars column as \<^verbatim>\<open>read_csv\<close> infers it: null, a 64-bit integer, a
  float, a boolean or text. The representation of floats is left open (type \<open>'f\<close>).
\<close>

datatype 'f cell = Null | Int64 int | Float64 'f | Boolean bool | Utf8 string

text \<open>
  A data frame: the ordered column names and the rows, each row holding one cell per
  column, in column order.
\<close>

record 'f dataframe =
  columns :: "string list"
  rows :: "'f cell list list"

text \<open>Polars keeps column names unique and every row as wide as the header.\<close>

definition wf_frame :: "'f dataframe \<Rightarrow> bool" where
  "wf_frame df \<longleftrightarrow> distinct (columns df) \<and> (\<forall>r \<in> set (rows df). length r = length (columns df))"

text \<open>The cell of row \<open>r\<close> under column \<open>c\<close>, when the frame has that column.\<close>

definition cell_at :: "string list \<Rightarrow> 'f cell list \<Rightarrow> string \<Rightarrow> 'f cell option" where
  "cell_at cols r c = map_of (zip cols r) c"

datatype exn = DuplicateError | ReadError string | SqlError string

subsection \<open>Configuration (lines 19--50)\<close>

definition SALES_SCHEMA_MAP :: "(string \<times> string) list" where
  "SALES_SCHEMA_MAP =
    [(''qty'', ''quantity''),
     (''quant'', ''quantity''),
     (''count'', ''quantity''),
     (''price'', ''unit_price''),
     (''cost'', ''unit_price''),
     (''tx_id'', ''transaction_id''),
     (''txn_id'', ''transaction_id''),
     (''prod_id'', ''product_id''),
     (''item_id'', ''product_id''),
     (''total'', ''total_amount''),
     (''amount'', ''total_amount''),
     (''date'', ''transaction_timestamp''),
     (''timestamp'', ''transaction_timestamp'')]"

text \<open>\<^verbatim>\<open>os.path.join\<close> of two components (posixpath).\<close>

definition path_join :: "string \<Rightarrow> string \<Rightarrow> string" where
  "path_join a b =
    (if b \<noteq> [] \<and> hd b = CHR ''/'' then b
     else if a = [] \<or> last a = CHR ''/'' then a @ b
     else a @ ''/'' @ b)"

definition batch_size :: nat where
  "batch_size = 500"

subsection \<open>Effects\<close>

text \<open>
  What a run does to the outside, in order: the lines it prints and the calls it makes
  on the database. \<open>Call_to_sql\<close> records the call of \<^verbatim>\<open>to_sql\<close> with the table
  name and the combined frame, whether the call then succeeds or raises.
\<close>

datatype 'f event =
    Print_msg string
  | Print_found nat string
  | Print_processed nat nat
  | Print_error string exn
  | Print_finished string
  | Call_to_sql string "'f dataframe"
  | Execute_drop string
  | Commit

record ('f, 'db) world =
  db :: 'db
  trace :: "'f event list"

text \<open>
  The environment: \<^verbatim>\<open>glob.glob\<close>, \<^verbatim>\<open>pl.read_csv(path, ignore_errors=True)\<close>,
  the text Polars gives a float, \<^verbatim>\<open>DataFrame.to_sql(table, engine, if_exists='append',
  index=False, schema='public')\<close> and \<^verbatim>\<open>DROP TABLE IF EXISTS\<close>. Reading and both
  database operations may raise.
\<close>

record ('f, 'db) env =
  base_dir :: string
  glob_glob :: "string \<Rightarrow> string list"
  read_csv :: "string \<Rightarrow> exn + 'f dataframe"
  float_to_str :: "'f \<Rightarrow> string"
  to_sql :: "'db \<Rightarrow> string \<Rightarrow> 'f dataframe \<Rightarrow> exn + 'db"
  drop_table_if_exists :: "'db \<Rightarrow> string \<Rightarrow> exn + 'db"

definition SALES_DIR :: "('f, 'db) env \<Rightarrow> string" where
  "SALES_DIR env = path_join (path_join (base_dir env) ''data'') ''raw_sales''"

definition INVENTORY_DIR :: "('f, 'db) env \<Rightarrow> string" where
  "INVENTORY_DIR env = path_join (path_join (base_dir env) ''data'') ''inventory''"

definition say :: "'f event list \<Rightarrow> ('f, 'db) world \<Rightarrow> ('f, 'db) world" where
  "say es w = w\<lparr>trace := trace w @ es\<rparr>"

subsection \<open>Column renaming (lines 105--116)\<close>

text \<open>
  A Python dict is an association list with unique keys: \<open>map_of\<close> looks a key up and
  \<open>AList.update\<close> assigns (in place when the key exists, at the end otherwise). The loop
  of lines 110--112 assigns \<^verbatim>\<open>rename_dict[col] = schema_map[col]\<close> for every column
  that is a key of the schema map.
\<close>

definition build_rename_dict :: "(string \<times> string) list \<Rightarrow> string list \<Rightarrow> (string \<times> string) list" where
  "build_rename_dict schema_map current_cols =
     foldl (\<lambda>rename_dict col.
              case map_of schema_map col of
                Some v \<Rightarrow> AList.update col v rename_dict
              | None \<Rightarrow> rename_dict) [] current_cols"

text \<open>
  \<^verbatim>\<open>DataFrame.rename(mapping)\<close>: every column that is a key of the mapping takes the
  mapped name, the others keep theirs; Polars rebuilds the frame and raises
  \<^verbatim>\<open>DuplicateError\<close> when two columns end up with one name. The rows are untouched.
\<close>

definition new_name :: "(string \<times> string) list \<Rightarrow> string \<Rightarrow> string" where
  "new_name mapping c = (case map_of mapping c of Some n \<Rightarrow> n | None \<Rightarrow> c)"

definition rename :: "'f dataframe \<Rightarrow> (string \<times> string) list \<Rightarrow> exn + 'f dataframe" where
  "rename df mapping =
     (let new_cols = map (new_name mapping) (columns df)
      in if distinct new_cols then Inr (df\<lparr>columns := new_cols\<rparr>) else Inl DuplicateError)"

text \<open>
  Lines 105--116. \<^verbatim>\<open>if schema_map:\<close> holds for a dict that is neither \<^verbatim>\<open>None\<close>
  nor empty, and \<^verbatim>\<open>if rename_dict:\<close> for a non-empty dict.
\<close>

definition normalize_columns :: "(string \<times> string) list option \<Rightarrow> 'f dataframe \<Rightarrow> exn + 'f dataframe" where
  "normalize_columns schema_map df =
     (case schema_map of
        None \<Rightarrow> Inr df
      | Some [] \<Rightarrow> Inr df
      | Some sm \<Rightarrow>
          (let current_cols = columns df;
               rename_dict = build_rename_dict sm current_cols
           in if rename_dict \<noteq> [] then rename df rename_dict else Inr df))"

subsection \<open>The cast to text (line 120)\<close>

function nat_to_str :: "nat \<Rightarrow> string" where
  "nat_to_str n =
     (if n < 10 then [''0123456789'' ! n]
      else nat_to_str (n div 10) @ [''0123456789'' ! (n mod 10)])"
  by pat_completeness auto
termination
  by (relation "measure id") auto

declare nat_to_str.simps [simp del]

definition int_to_str :: "int \<Rightarrow> string" where
  "int_to_str i = (if i < 0 then CHR ''-'' # nat_to_str (nat (- i)) else nat_to_str (nat i))"

text \<open>
  \<^verbatim>\<open>cast(pl.Utf8)\<close> on one value: a null stays null, text stays as it is, an integer
  becomes its decimal digits, a boolean \<^verbatim>\<open>true\<close> or \<^verbatim>\<open>false\<close>, a float the text
  Polars prints for it.
\<close>

fun cast_utf8 :: "('f \<Rightarrow> string) \<Rightarrow> 'f cell \<Rightarrow> 'f cell" where
  "cast_utf8 fmt Null = Null"
| "cast_utf8 fmt (Int64 i) = Utf8 (int_to_str i)"
| "cast_utf8 fmt (Float64 x) = Utf8 (fmt x)"
| "cast_utf8 fmt (Boolean b) = Utf8 (if b then ''true'' else ''false'')"
| "cast_utf8 fmt (Utf8 s) = Utf8 s"

text \<open>\<^verbatim>\<open>df.select(pl.all().cast(pl.Utf8))\<close>: every column, every row.\<close>

definition cast_all :: "('f \<Rightarrow> string) \<Rightarrow> 'f dataframe \<Rightarrow> 'f dataframe" where
  "cast_all fmt df = df\<lparr>rows := map (map (cast_utf8 fmt)) (rows df)\<rparr>"

text \<open>Lines 102--120: what one file contributes to the batch, or the exception raised.\<close>

definition process_file ::
  "('f, 'db) env \<Rightarrow> (string \<times> string) list option \<Rightarrow> string \<Rightarrow> exn + 'f dataframe" where
  "process_file env schema_map file_path =
     (case read_csv env file_path of
        Inl e \<Rightarrow> Inl e
      | Inr df \<Rightarrow>
          (case normalize_columns schema_map df of
             Inl e \<Rightarrow> Inl e
           | Inr df' \<Rightarrow> Inr (cast_all (float_to_str env) df')))"

subsection \<open>Diagonal concatenation (line 127)\<close>

text \<open>
  \<^verbatim>\<open>pl.concat(frames, how="diagonal")\<close>: the schema is built by scanning the frames
  in order and adding every column name not seen before; every frame is then widened to
  that schema, a missing column filled with nulls, and the frames are stacked.
\<close>

definition union_columns :: "'f dataframe list \<Rightarrow> string list" where
  "union_columns dfs =
     foldl (\<lambda>seen df. seen @ filter (\<lambda>c. c \<notin> set seen) (columns df)) [] dfs"

definition align_row :: "string list \<Rightarrow> string list \<Rightarrow> 'f cell list \<Rightarrow> 'f cell list" where
  "align_row schema cols r =
     map (\<lambda>c. case cell_at cols r c of Some v \<Rightarrow> v | None \<Rightarrow> Null) schema"

definition align_frame :: "string list \<Rightarrow> 'f dataframe \<Rightarrow> 'f cell list list" where
  "align_frame schema df = map (align_row schema (columns df)) (rows df)"

definition concat_diagonal :: "'f dataframe list \<Rightarrow> 'f dataframe" where
  "concat_diagonal dfs =
     (let schema = union_columns dfs
      in \<lparr>columns = schema, rows = concat (map (align_frame schema) dfs)\<rparr>)"

subsection \<open>The loop of \<^verbatim>\<open>ingest_files\<close> (lines 99--145)\<close>

text \<open>
  One iteration, for file number \<open>i\<close> at \<open>file_path\<close>. The whole body is inside
  \<^verbatim>\<open>try\<close>: an exception of the read, of the renaming or of the write ends the
  iteration at the handler of line 143, which prints the error; the batch keeps what it
  held when the exception was raised.
\<close>

definition loop_body ::
  "('f, 'db) env \<Rightarrow> nat \<Rightarrow> string \<Rightarrow> (string \<times> string) list option \<Rightarrow> nat \<Rightarrow> nat \<Rightarrow> string \<Rightarrow>
   'f dataframe list \<times> ('f, 'db) world \<Rightarrow> 'f dataframe list \<times> ('f, 'db) world" where
  "loop_body env bsize table_name schema_map total_files i file_path st =
     (case st of (current_batch, w) \<Rightarrow>
        (case process_file env schema_map file_path of
           Inl e \<Rightarrow> (current_batch, say [Print_error file_path e] w)
         | Inr df \<Rightarrow>
             (let current_batch = current_batch @ [df]
              in if length current_batch \<ge> bsize \<or> int i = int total_files - 1 then
                   (if current_batch \<noteq> [] then
                      (let combined_df = concat_diagonal current_batch;
                           w = say [Call_to_sql table_name combined_df] w
                       in case to_sql env (db w) table_name combined_df of
                            Inl e \<Rightarrow> (current_batch, say [Print_error file_path e] w)
                          | Inr db' \<Rightarrow> ([], say [Print_processed (i + 1) total_files] (w\<lparr>db := db'\<rparr>)))
                    else ([], say [Print_processed (i + 1) total_files] w))
                 else (current_batch, w))))"

text \<open>\<^verbatim>\<open>for i, file_path in enumerate(files)\<close>.\<close>

fun ingest_loop ::
  "('f, 'db) env \<Rightarrow> nat \<Rightarrow> string \<Rightarrow> (string \<times> string) list option \<Rightarrow> nat \<Rightarrow> (nat \<times> string) list \<Rightarrow>
   'f dataframe list \<times> ('f, 'db) world \<Rightarrow> 'f dataframe list \<times> ('f, 'db) world" where
  "ingest_loop env bsize table_name schema_map total_files [] st = st"
| "ingest_loop env bsize table_name schema_map total_files ((i, file_path) # rest) st =
     ingest_loop env bsize table_name schema_map total_files rest
       (loop_body env bsize table_name schema_map total_files i file_path st)"

text \<open>
  \<^verbatim>\<open>ingest_files\<close> with the batch size as a parameter; the script fixes it at 500.
  The handler of line 143 catches every exception, so the function always returns.
\<close>

definition ingest_files_sized ::
  "nat \<Rightarrow> ('f, 'db) env \<Rightarrow> string \<Rightarrow> string \<Rightarrow> (string \<times> string) list option \<Rightarrow>
   ('f, 'db) world \<Rightarrow> ('f, 'db) world" where
  "ingest_files_sized bsize env file_pattern table_name schema_map w =
     (let files = glob_glob env file_pattern;
          total_files = length files;
          w = say [Print_found total_files table_name] w;
          st = ingest_loop env bsize table_name schema_map total_files (enumerate 0 files) ([], w)
      in say [Print_finished table_name] (snd st))"

definition ingest_files ::
  "('f, 'db) env \<Rightarrow> string \<Rightarrow> string \<Rightarrow> (string \<times> string) list option \<Rightarrow>
   ('f, 'db) world \<Rightarrow> ('f, 'db) world" where
  "ingest_files = ingest_files_sized batch_size"

subsection \<open>\<^verbatim>\<open>main\<close> (lines 152--184)\<close>

text \<open>
  The two drops run in one transaction, committed after the second: when either raises,
  nothing is committed and the exception leaves \<^verbatim>\<open>main\<close>.
\<close>

definition main :: "('f, 'db) env \<Rightarrow> ('f, 'db) world \<Rightarrow> exn + ('f, 'db) world" where
  "main env w =
     (let w = say [Print_msg ''Starting Ingestion Pipeline...''] w
      in case drop_table_if_exists env (db w) ''raw_sales'' of
           Inl e \<Rightarrow> Inl e
         | Inr d1 \<Rightarrow>
             (case drop_table_if_exists env d1 ''raw_inventory'' of
                Inl e \<Rightarrow> Inl e
              | Inr d2 \<Rightarrow>
                  (let w = say [Execute_drop ''raw_sales'', Execute_drop ''raw_inventory'', Commit,
                                Print_msg ''Cleared old raw tables.''] (w\<lparr>db := d2\<rparr>);
                       w = say [Print_msg ''--- Processing SALES Data ---''] w;
                       sales_pattern = path_join (SALES_DIR env) ''*.csv'';
                       w = ingest_files env sales_pattern ''raw_sales'' (Some SALES_SCHEMA_MAP) w;
                       w = say [Print_msg ''--- Processing INVENTORY Data ---''] w;
                       inventory_pattern = path_join (INVENTORY_DIR env) ''*.csv'';
                       w = ingest_files env inventory_pattern ''raw_inventory'' None w
                   in Inr (say [Print_msg ''All Data Successfully Loaded into Postgres!''] w))))"

subsection \<open>Observations on a run\<close>

text \<open>The calls of \<^verbatim>\<open>to_sql\<close> in a trace, in order: table name and frame written.\<close>

fun sql_writes :: "'f event list \<Rightarrow> (string \<times> 'f dataframe) list" where
  "sql_writes [] = []"
| "sql_writes (Call_to_sql t df # es) = (t, df) # sql_writes es"
| "sql_writes (e # es) = sql_writes es"

text \<open>The tables dropped in a trace, in order.\<close>

fun drops :: "'f event list \<Rightarrow> string list" where
  "drops [] = []"
| "drops (Execute_drop t # es) = t # drops es"
| "drops (e # es) = drops es"

text \<open>The files a trace reports as failed (the lines printed at line 145).\<close>

fun skipped :: "'f event list \<Rightarrow> string list" where
  "skipped [] = []"
| "skipped (Print_error p e # es) = p # skipped es"
| "skipped (e # es) = skipped es"

text \<open>The frames of the files that lines 102--120 process without an exception, in order.\<close>

definition ok_frames ::
  "('f, 'db) env \<Rightarrow> (string \<times> string) list option \<Rightarrow> string list \<Rightarrow> 'f dataframe list" where
  "ok_frames env schema_map ps =
     concat (map (\<lambda>p. case process_file env schema_map p of Inl e \<Rightarrow> [] | Inr df \<Rightarrow> [df]) ps)"

text \<open>A list cut into consecutive pieces of \<open>k\<close> elements, the last one shorter or full.\<close>

function chunks :: "nat \<Rightarrow> 'a list \<Rightarrow> 'a list list" where
  "chunks k xs = (if k = 0 \<or> xs = [] then [] else take k xs # chunks k (drop k xs))"
  by pat_completeness auto
termination
  by (relation "measure (\<lambda>(k, xs). length xs)") auto

declare chunks.simps [simp del]


subsection \<open>A relational sink\<close>

text \<open>
  The database as the script uses it: a table name is bound to a table (a header and
  rows) or to nothing. \<^verbatim>\<open>DROP TABLE IF EXISTS\<close> unbinds the name and does not fail
  when there is no such table. \<^verbatim>\<open>to_sql(..., if_exists='append')\<close> creates the table
  from the frame when the name is unbound; otherwise it inserts the frame's rows after
  the existing ones, a column of the table the frame lacks taking null, and fails when
  the frame has a column the table lacks.
\<close>

type_synonym 'f database = "string \<rightharpoonup> 'f dataframe"

definition pg_drop_table_if_exists :: "'f database \<Rightarrow> string \<Rightarrow> exn + 'f database" where
  "pg_drop_table_if_exists d t = Inr (d(t := None))"

definition pg_to_sql :: "'f database \<Rightarrow> string \<Rightarrow> 'f dataframe \<Rightarrow> exn + 'f database" where
  "pg_to_sql d t df =
     (case d t of
        None \<Rightarrow> Inr (d(t \<mapsto> df))
      | Some tab \<Rightarrow>
          if set (columns df) \<subseteq> set (columns tab)
          then Inr (d(t \<mapsto> tab\<lparr>rows := rows tab @ align_frame (columns tab) df\<rparr>))
          else Inl (SqlError ''undefined column''))"

subsection \<open>Example inputs\<close>

text \<open>A sales file with drifted column names, and one where two columns drift to one name.\<close>

definition sales_frame :: "nat dataframe" where
  "sales_frame =
     \<lparr>columns = [''tx_id'', ''store_id'', ''qty''],
      rows = [[Int64 7, Utf8 ''S1'', Int64 3], [Int64 8, Utf8 ''S2'', Null]]\<rparr>"

definition clash_frame :: "nat dataframe" where
  "clash_frame = \<lparr>columns = [''qty'', ''quant''], rows = [[Int64 1, Int64 2]]\<rparr>"

definition second_frame :: "nat dataframe" where
  "second_frame =
     \<lparr>columns = [''transaction_id'', ''quantity'', ''date_of_sale''],
      rows = [[Int64 9, Int64 1, Utf8 ''2024-01-02'']]\<rparr>"

text \<open>A file system with three readable files; every other path cannot be read.\<close>

definition demo_read :: "string \<Rightarrow> exn + nat dataframe" where
  "demo_read p =
     (if p = ''a.csv'' then Inr sales_frame
      else if p = ''b.csv'' then Inr second_frame
      else if p = ''clash.csv'' then Inr clash_frame
      else Inl (ReadError ''no data''))"

text \<open>A sink that records every write and never fails, and one that is down.\<close>

definition log_to_sql ::
  "(string \<times> nat dataframe) list \<Rightarrow> string \<Rightarrow> nat dataframe \<Rightarrow> exn + (string \<times> nat dataframe) list" where
  "log_to_sql d t df = Inr (d @ [(t, df)])"

definition log_drop :: "(string \<times> nat dataframe) list \<Rightarrow> string \<Rightarrow> exn + (string \<times> nat dataframe) list" where
  "log_drop d t = Inr (filter (\<lambda>x. fst x \<noteq> t) d)"

definition down_to_sql :: "'db \<Rightarrow> string \<Rightarrow> nat dataframe \<Rightarrow> exn + 'db" where
  "down_to_sql d t df = Inl (SqlError ''connection lost'')"

definition demo_env ::
  "(string \<Rightarrow> string list) \<Rightarrow> ('db \<Rightarrow> string \<Rightarrow> nat dataframe \<Rightarrow> exn + 'db) \<Rightarrow>
   ('db \<Rightarrow> string \<Rightarrow> exn + 'db) \<Rightarrow> (nat, 'db) env" where
  "demo_env g sink dropper =
     \<lparr>base_dir = ''/repo'', glob_glob = g, read_csv = demo_read, float_to_str = nat_to_str,
      to_sql = sink, drop_table_if_exists = dropper\<rparr>"

definition empty_world :: "(nat, (string \<times> nat dataframe) list) world" where
  "empty_world = \<lparr>db = [], trace = []\<rparr>"

text \<open>
  A directory of 501 files that all read as the same frame: one more than the batch size.
\<close>

definition many_files :: "string list" where
  "many_files = map (\<lambda>n. ''part_'' @ nat_to_str n @ ''.csv'') [0..<501]"

definition flat_env ::
  "(string \<Rightarrow> string list) \<Rightarrow> ('db \<Rightarrow> string \<Rightarrow> nat dataframe \<Rightarrow> exn + 'db) \<Rightarrow>
   ('db \<Rightarrow> string \<Rightarrow> exn + 'db) \<Rightarrow> (nat, 'db) env" where
  "flat_env g sink dropper =
     \<lparr>base_dir = ''/repo'', glob_glob = g, read_csv = (\<lambda>p. Inr sales_frame), float_to_str = nat_to_str,
      to_sql = sink, drop_table_if_exists = dropper\<rparr>"

text \<open>
  A repository checkout at \<^verbatim>\<open>/repo\<close> with two sales files and one inventory file, a
  database that still holds a sales table from an earlier invocation, and an empty one.
\<close>

definition demo_glob :: "string \<Rightarrow> string list" where
  "demo_glob pat =
     (if pat = ''/repo/data/raw_sales/*.csv'' then [''a.csv'', ''b.csv'']
      else if pat = ''/repo/data/inventory/*.csv'' then [''b.csv'']
      else [])"

definition stale_world :: "(nat, nat database) world" where
  "stale_world =
     \<lparr>db = [''raw_sales'' \<mapsto> \<lparr>columns = [''transaction_id''], rows = [[Utf8 ''old'']]\<rparr>], trace = []\<rparr>"

definition fresh_world :: "(nat, nat database) world" where
  "fresh_world = \<lparr>db = Map.empty, trace = []\<rparr>"

section \<open>Properties\<close>

subsection \<open>Renaming\<close>

lemma map_of_build_aux:
  "map_of (foldl (\<lambda>rename_dict col. case map_of sm col of Some v \<Rightarrow> AList.update col v rename_dict | None \<Rightarrow> rename_dict) acc cols) c
   = (if c \<in> set cols then (case map_of sm c of Some v \<Rightarrow> Some v | None \<Rightarrow> map_of acc c) else map_of acc c)"
  by (induction cols arbitrary: acc) (auto simp: update_conv' split: option.splits)

lemma map_of_build_rename_dict:
  "map_of (build_rename_dict sm cols) c = (if c \<in> set cols then map_of sm c else None)"
  unfolding build_rename_dict_def by (simp add: map_of_build_aux split: option.splits)

lemma new_name_build:
  "c \<in> set cols \<Longrightarrow> new_name (build_rename_dict sm cols) c = new_name sm c"
  by (simp add: new_name_def map_of_build_rename_dict)

lemma map_new_name_build:
  "map (new_name (build_rename_dict sm cols)) cols = map (new_name sm) cols"
  by (simp add: new_name_build)

lemma build_empty_identity:
  assumes "build_rename_dict sm cols = []"
  shows "map (new_name sm) cols = cols"
proof -
  have "\<And>c. c \<in> set cols \<Longrightarrow> map_of sm c = None"
    using map_of_build_rename_dict [of sm cols] assms by (metis map_of.simps(1))
  then have "\<And>c. c \<in> set cols \<Longrightarrow> new_name sm c = c"
    by (simp add: new_name_def)
  then show ?thesis by (simp add: map_idI)
qed

lemma build_rename_dict_Nil: "build_rename_dict [] cols = []"
proof -
  have "foldl (\<lambda>(rename_dict :: (string \<times> string) list) (col :: string). rename_dict) acc cols = acc" for acc
    by (induction cols) simp_all
  then show ?thesis by (simp add: build_rename_dict_def)
qed

lemma normalize_columns_Some:
  "normalize_columns (Some sm) df =
     (if distinct (map (new_name sm) (columns df)) \<or> build_rename_dict sm (columns df) = []
      then Inr (df\<lparr>columns := map (new_name sm) (columns df)\<rparr>) else Inl DuplicateError)"
proof (cases sm)
  case Nil
  have "map (new_name []) (columns df) = columns df"
    by (simp add: new_name_def map_idI)
  then show ?thesis
    using Nil by (simp add: normalize_columns_def build_rename_dict_Nil)
next
  case (Cons a list)
  show ?thesis
  proof (cases "build_rename_dict sm (columns df) = []")
    case True
    then show ?thesis
      using Cons build_empty_identity [OF True] by (simp add: normalize_columns_def)
  next
    case False
    then show ?thesis
      using Cons by (simp add: normalize_columns_def rename_def map_new_name_build)
  qed
qed

lemma cast_utf8_idem: "cast_utf8 fmt (cast_utf8 fmt c) = cast_utf8 fmt c"
  by (cases c) simp_all

lemma cast_all_idem: "cast_all fmt (cast_all fmt df) = cast_all fmt df"
  by (simp add: cast_all_def comp_def cast_utf8_idem)

subsection \<open>The loop\<close>

lemma say_simps [simp]:
  "trace (say es w) = trace w @ es" "db (say es w) = db w"
  by (simp_all add: say_def)

lemma loop_body_raise:
  "process_file env sm p = Inl e \<Longrightarrow>
   loop_body env K t sm N i p (b, w) = (b, say [Print_error p e] w)"
  by (simp add: loop_body_def)

lemma loop_body_keep:
  "process_file env sm p = Inr df \<Longrightarrow> \<not> (K \<le> Suc (length b) \<or> Suc i = N) \<Longrightarrow>
   loop_body env K t sm N i p (b, w) = (b @ [df], w)"
  by (auto simp: loop_body_def)

lemma loop_body_flush_ok:
  "process_file env sm p = Inr df \<Longrightarrow> K \<le> Suc (length b) \<or> Suc i = N \<Longrightarrow>
   to_sql env (db w) t (concat_diagonal (b @ [df])) = Inr d' \<Longrightarrow>
   loop_body env K t sm N i p (b, w) =
     ([], say [Print_processed (i + 1) N] (say [Call_to_sql t (concat_diagonal (b @ [df]))] w\<lparr>db := d'\<rparr>))"
  by (auto simp: loop_body_def Let_def)

lemma loop_body_flush_raise:
  "process_file env sm p = Inr df \<Longrightarrow> K \<le> Suc (length b) \<or> Suc i = N \<Longrightarrow>
   to_sql env (db w) t (concat_diagonal (b @ [df])) = Inl e \<Longrightarrow>
   loop_body env K t sm N i p (b, w) =
     (b @ [df], say [Print_error p e] (say [Call_to_sql t (concat_diagonal (b @ [df]))] w))"
  by (auto simp: loop_body_def Let_def)

lemma ingest_loop_append:
  "ingest_loop env K t sm N (xs @ ys) st = ingest_loop env K t sm N ys (ingest_loop env K t sm N xs st)"
proof (induction xs arbitrary: st)
  case Nil then show ?case by simp
next
  case (Cons x xs) then show ?case by (cases x) simp
qed

lemma sql_writes_append [simp]: "sql_writes (xs @ ys) = sql_writes xs @ sql_writes ys"
  by (induction xs rule: sql_writes.induct) simp_all

lemma drops_append [simp]: "drops (xs @ ys) = drops xs @ drops ys"
  by (induction xs rule: drops.induct) simp_all

lemma skipped_append [simp]: "skipped (xs @ ys) = skipped xs @ skipped ys"
  by (induction xs rule: skipped.induct) simp_all

lemma ok_frames_Nil [simp]: "ok_frames env sm [] = []"
  by (simp add: ok_frames_def)

lemma ok_frames_append [simp]: "ok_frames env sm (xs @ ys) = ok_frames env sm xs @ ok_frames env sm ys"
  by (simp add: ok_frames_def)

lemma ok_frames_Cons_ok: "process_file env sm p = Inr df \<Longrightarrow> ok_frames env sm (p # ps) = df # ok_frames env sm ps"
  by (simp add: ok_frames_def)





text \<open>Files that only fill the batch.\<close>
lemma ingest_loop_fill:
  assumes "\<forall>p \<in> set ps. \<exists>df. process_file env sm p = Inr df"
    and "length b + length ps < K" and "i + length ps < N"
  shows "ingest_loop env K t sm N (enumerate i ps) (b, w) = (b @ ok_frames env sm ps, w)"
  using assms
proof (induction ps arbitrary: b i)
  case Nil then show ?case by simp
next
  case (Cons p ps)
  then obtain df where df: "process_file env sm p = Inr df" by auto
  have "loop_body env K t sm N i p (b, w) = (b @ [df], w)"
    using Cons.prems by (intro loop_body_keep [OF df]) auto
  moreover have "ingest_loop env K t sm N (enumerate (Suc i) ps) (b @ [df], w) = ((b @ [df]) @ ok_frames env sm ps, w)"
    using Cons.prems by (intro Cons.IH) auto
  ultimately show ?case by (simp add: ok_frames_Cons_ok [OF df])
qed

lemma chunks_Nil [simp]: "chunks k [] = []"
  by (simp add: chunks.simps)





section \<open>The claims\<close>

subsection \<open>C6: the cast to text\<close>

text \<open>
  C6. The cast of line 120 is total and idempotent. For every cell, whatever its type:
  casting twice is casting once; a text cell is returned as it is; a null stays null and
  does not become the text \<^verbatim>\<open>null\<close>; the result is null exactly for a null and text
  for everything else. On a whole frame the cast is idempotent too and keeps the columns
  and the number of rows. The cast has no failing branch: \<open>process_file\<close> raises only
  where the read or the renaming does.
\<close>

theorem cast_total_idempotent:
  "cast_utf8 fmt (cast_utf8 fmt c) = cast_utf8 fmt c \<and>
   cast_utf8 fmt (Utf8 s) = Utf8 s \<and>
   cast_utf8 fmt Null = Null \<and> cast_utf8 fmt Null \<noteq> Utf8 ''null'' \<and>
   ((cast_utf8 fmt c = Null) = (c = Null)) \<and>
   (c = Null \<or> (\<exists>t. cast_utf8 fmt c = Utf8 t)) \<and>
   cast_all fmt (cast_all fmt df) = cast_all fmt df \<and>
   columns (cast_all fmt df) = columns df \<and>
   length (rows (cast_all fmt df)) = length (rows df)"
  by (cases c) (simp_all add: cast_all_idem cast_utf8_idem, simp_all add: cast_all_def)

subsection \<open>C3: the rename plan\<close>

text \<open>
  C3. For every rename table \<open>R\<close> and every column sequence: the plan the loop of lines
  110--112 builds, read the way \<^verbatim>\<open>rename\<close> applies it, sends every column that is a
  key of \<open>R\<close> to \<open>R\<close>'s value and every other column to itself; when the renaming
  returns a frame, its header is the old header mapped column by column (one output name
  per input column, in the same position) and its rows are untouched; with no rename
  table the frame is returned as it is.
\<close>

theorem normalize_columns_plan:
  "(\<forall>c \<in> set cols. new_name (build_rename_dict R cols) c = (case map_of R c of Some v \<Rightarrow> v | None \<Rightarrow> c)) \<and>
   (normalize_columns (Some R) df = Inr df' \<longrightarrow>
      columns df' = map (\<lambda>c. case map_of R c of Some v \<Rightarrow> v | None \<Rightarrow> c) (columns df) \<and>
      rows df' = rows df) \<and>
   normalize_columns None df = Inr df"
proof (intro conjI ballI impI)
  fix c assume "c \<in> set cols"
  then show "new_name (build_rename_dict R cols) c = (case map_of R c of Some v \<Rightarrow> v | None \<Rightarrow> c)"
    by (simp add: new_name_build) (simp add: new_name_def)
next
  assume ok: "normalize_columns (Some R) df = Inr df'"
  then have "df' = df\<lparr>columns := map (new_name R) (columns df)\<rparr>"
    by (simp add: normalize_columns_Some split: if_splits)
  then show "columns df' = map (\<lambda>c. case map_of R c of Some v \<Rightarrow> v | None \<Rightarrow> c) (columns df)"
    and "rows df' = rows df"
    by (simp_all add: new_name_def [abs_def])
next
  show "normalize_columns None df = Inr df"
    by (simp add: normalize_columns_def)
qed

lemma sales_frame_renamed:
  "normalize_columns (Some SALES_SCHEMA_MAP) sales_frame =
     Inr (sales_frame\<lparr>columns := [''transaction_id'', ''store_id'', ''quantity'']\<rparr>)"
  by (simp add: normalize_columns_Some new_name_def SALES_SCHEMA_MAP_def sales_frame_def)

theorem normalize_columns_plan_witness:
  "new_name (build_rename_dict SALES_SCHEMA_MAP [''tx_id'', ''store_id'', ''qty'']) ''qty'' = ''quantity'' \<and>
   new_name (build_rename_dict SALES_SCHEMA_MAP [''tx_id'', ''store_id'', ''qty'']) ''store_id'' = ''store_id'' \<and>
   normalize_columns (Some SALES_SCHEMA_MAP) sales_frame =
     Inr (sales_frame\<lparr>columns := [''transaction_id'', ''store_id'', ''quantity'']\<rparr>) \<and>
   columns (sales_frame\<lparr>columns := [''transaction_id'', ''store_id'', ''quantity'']\<rparr>) =
     map (\<lambda>c. case map_of SALES_SCHEMA_MAP c of Some v \<Rightarrow> v | None \<Rightarrow> c) (columns sales_frame) \<and>
   rows (sales_frame\<lparr>columns := [''transaction_id'', ''store_id'', ''quantity'']\<rparr>) = rows sales_frame \<and>
   normalize_columns None sales_frame = Inr sales_frame"
proof -
  note plan = normalize_columns_plan [of "[''tx_id'', ''store_id'', ''qty'']" SALES_SCHEMA_MAP sales_frame
      "sales_frame\<lparr>columns := [''transaction_id'', ''store_id'', ''quantity'']\<rparr>"]
  from plan have "\<forall>c \<in> set [''tx_id'', ''store_id'', ''qty''].
      new_name (build_rename_dict SALES_SCHEMA_MAP [''tx_id'', ''store_id'', ''qty'']) c =
        (case map_of SALES_SCHEMA_MAP c of Some v \<Rightarrow> v | None \<Rightarrow> c)"
    by (rule conjunct1)
  then have "new_name (build_rename_dict SALES_SCHEMA_MAP [''tx_id'', ''store_id'', ''qty'']) ''qty'' =
        (case map_of SALES_SCHEMA_MAP ''qty'' of Some v \<Rightarrow> v | None \<Rightarrow> ''qty'')"
    and "new_name (build_rename_dict SALES_SCHEMA_MAP [''tx_id'', ''store_id'', ''qty'']) ''store_id'' =
        (case map_of SALES_SCHEMA_MAP ''store_id'' of Some v \<Rightarrow> v | None \<Rightarrow> ''store_id'')"
    by simp_all
  then have names: "new_name (build_rename_dict SALES_SCHEMA_MAP [''tx_id'', ''store_id'', ''qty'']) ''qty'' = ''quantity''"
    "new_name (build_rename_dict SALES_SCHEMA_MAP [''tx_id'', ''store_id'', ''qty'']) ''store_id'' = ''store_id''"
    by (simp_all add: SALES_SCHEMA_MAP_def)
  show ?thesis
    using plan sales_frame_renamed names by blast
qed

subsection \<open>C7: two columns renamed to one name\<close>

text \<open>
  C7 as stated fails: a file with the columns \<^verbatim>\<open>qty\<close> and \<^verbatim>\<open>quant\<close>, which the
  sales map both sends to \<^verbatim>\<open>quantity\<close>, does not yield a frame; the renaming raises.
\<close>

theorem rename_collision_counterexample:
  "normalize_columns (Some SALES_SCHEMA_MAP) clash_frame = Inl DuplicateError"
  by (simp add: normalize_columns_Some new_name_def SALES_SCHEMA_MAP_def clash_frame_def
      build_rename_dict_def)

text \<open>
  C7 amended. When the rename table sends two distinct columns of a file to the same
  name, the plan is still built (it is not empty), applying it raises
  \<^verbatim>\<open>DuplicateError\<close>, no frame is produced for the file, and the iteration ends in
  the handler: the error is printed for that file and batch and database are as before.
\<close>

theorem rename_collision_skips_file:
  assumes "read_csv env p = Inr df" and "distinct (columns df)"
    and "c1 \<in> set (columns df)" and "c2 \<in> set (columns df)" and "c1 \<noteq> c2"
    and "new_name R c1 = new_name R c2"
  shows "build_rename_dict R (columns df) \<noteq> [] \<and>
         normalize_columns (Some R) df = Inl DuplicateError \<and>
         process_file env (Some R) p = Inl DuplicateError \<and>
         loop_body env K t (Some R) N i p (b, w) = (b, say [Print_error p DuplicateError] w)"
proof -
  have nd: "\<not> distinct (map (new_name R) (columns df))"
    using assms(3-6) by (auto simp: distinct_map inj_on_def)
  have ne: "build_rename_dict R (columns df) \<noteq> []"
  proof
    assume "build_rename_dict R (columns df) = []"
    then have "map (new_name R) (columns df) = columns df" by (rule build_empty_identity)
    with nd assms(2) show False by simp
  qed
  have n: "normalize_columns (Some R) df = Inl DuplicateError"
    using nd ne by (simp add: normalize_columns_Some)
  have p: "process_file env (Some R) p = Inl DuplicateError"
    using assms(1) n by (simp add: process_file_def)
  show ?thesis using ne n p by (simp add: loop_body_raise)
qed

theorem rename_collision_skips_file_witness:
  "build_rename_dict SALES_SCHEMA_MAP (columns clash_frame) \<noteq> [] \<and>
   normalize_columns (Some SALES_SCHEMA_MAP) clash_frame = Inl DuplicateError \<and>
   process_file (demo_env (\<lambda>pat. [''clash.csv'']) log_to_sql log_drop) (Some SALES_SCHEMA_MAP) ''clash.csv'' =
     Inl DuplicateError \<and>
   loop_body (demo_env (\<lambda>pat. [''clash.csv'']) log_to_sql log_drop) 500 ''raw_sales''
       (Some SALES_SCHEMA_MAP) 1 0 ''clash.csv'' ([], empty_world) =
     ([], say [Print_error ''clash.csv'' DuplicateError] empty_world)"
proof -
  have r: "read_csv (demo_env (\<lambda>pat. [''clash.csv'']) log_to_sql log_drop) ''clash.csv'' = Inr clash_frame"
    by (simp add: demo_env_def demo_read_def)
  have d: "distinct (columns clash_frame)" by (simp add: clash_frame_def)
  have m: "''qty'' \<in> set (columns clash_frame)" "''quant'' \<in> set (columns clash_frame)"
    by (simp_all add: clash_frame_def)
  have n: "''qty'' \<noteq> ''quant''" by simp
  have e: "new_name SALES_SCHEMA_MAP ''qty'' = new_name SALES_SCHEMA_MAP ''quant''"
    by (simp add: new_name_def SALES_SCHEMA_MAP_def)
  show ?thesis
    by (rule rename_collision_skips_file [OF r d m n e])
qed

subsection \<open>C1: when the batch is flushed\<close>

lemma demo_process_None:
  "process_file (demo_env g s d) None ''a.csv'' = Inr (cast_all nat_to_str sales_frame)"
  "process_file (demo_env g s d) None ''b.csv'' = Inr (cast_all nat_to_str second_frame)"
  "process_file (demo_env g s d) None ''clash.csv'' = Inr (cast_all nat_to_str clash_frame)"
  by (simp_all add: process_file_def demo_env_def demo_read_def normalize_columns_def)




subsection \<open>C5: one unreadable file\<close>

text \<open>
  C5 fails on the code when the unreadable file is the last one of the enumeration. With
  two files, \<^verbatim>\<open>a.csv\<close> readable and \<^verbatim>\<open>missing.csv\<close> not: the frame of
  \<^verbatim>\<open>a.csv\<close> goes into the batch (one frame, below 500, not the last file); the read
  of the last file raises before the test of line 124, so the batch is never written. The
  run prints one error and finishes, with nothing in the sink.
\<close>

theorem last_file_unreadable_loses_batch:
  "ingest_files (demo_env (\<lambda>pat. [''a.csv'', ''missing.csv'']) log_to_sql log_drop)
       ''*.csv'' ''raw_inventory'' None empty_world =
     \<lparr>db = [],
      trace = [Print_found 2 ''raw_inventory'',
               Print_error ''missing.csv'' (ReadError ''no data''),
               Print_finished ''raw_inventory'']\<rparr>"
  by (simp add: ingest_files_def ingest_files_sized_def batch_size_def loop_body_def process_file_def
      demo_env_def demo_read_def normalize_columns_def empty_world_def say_def)

subsection \<open>C2: a write that fails\<close>

lemma flat_process: "process_file (flat_env g s d) None p = Inr (cast_all nat_to_str sales_frame)"
  by (simp add: process_file_def flat_env_def normalize_columns_def)

lemma flat_ok_frames: "ok_frames (flat_env g s d) None ps = replicate (length ps) (cast_all nat_to_str sales_frame)"
  by (induction ps) (simp_all add: ok_frames_Cons_ok [OF flat_process])

lemma nat_to_str_499: "nat_to_str 499 = ''499''" "nat_to_str 500 = ''500''"
  by (simp_all add: nat_to_str.simps)

lemma replicate_snoc: "replicate n x @ [x] = replicate (Suc n) x"
  by (simp add: replicate_append_same)

lemma many_files_split:
  "many_files = map (\<lambda>n. ''part_'' @ nat_to_str n @ ''.csv'') [0..<499] @ [''part_499.csv'', ''part_500.csv'']"
proof -
  have "[0..<499 + 2] = [0..<499] @ [499..<499 + 2]"
    by (rule upt_add_eq_append) simp
  moreover have "[499..<499 + 2] = [499, 500::nat]"
    by (simp add: upt_rec)
  ultimately have "[0..<501] = [0..<499] @ [499, 500::nat]" by simp
  then show ?thesis
    unfolding many_files_def by (simp only: map_append list.map nat_to_str_499) simp
qed

text \<open>
  C2 as stated fails. With 501 readable files and a sink that is down, the write at file
  number 499 (the 500th) raises; the run is not aborted: the next file is read, its frame
  joins the batch, a second write of all 501 frames is attempted, and the run prints its
  closing line. Both failures are printed by the per-file handler.
\<close>

theorem write_failure_counterexample:
  "trace (ingest_files (flat_env (\<lambda>pat. many_files) down_to_sql log_drop)
            ''*.csv'' ''raw_inventory'' None empty_world) =
     [Print_found 501 ''raw_inventory'',
      Call_to_sql ''raw_inventory'' (concat_diagonal (replicate 500 (cast_all nat_to_str sales_frame))),
      Print_error ''part_499.csv'' (SqlError ''connection lost''),
      Call_to_sql ''raw_inventory'' (concat_diagonal (replicate 501 (cast_all nat_to_str sales_frame))),
      Print_error ''part_500.csv'' (SqlError ''connection lost''),
      Print_finished ''raw_inventory'']"
proof -
  let ?env = "flat_env (\<lambda>pat. many_files) down_to_sql log_drop :: (nat, (string \<times> nat dataframe) list) env"
  let ?t = "''raw_inventory''"
  let ?F = "cast_all nat_to_str sales_frame"
  define xs where "xs = map (\<lambda>n. ''part_'' @ nat_to_str n @ ''.csv'') [0..<499]"
  define v where "v = say [Print_found 501 ?t] empty_world"
  have len_xs: "length xs = 499" by (simp add: xs_def)
  have files: "many_files = xs @ [''part_499.csv'', ''part_500.csv'']"
    by (simp only: many_files_split xs_def)
  have len: "length many_files = 501" by (simp add: many_files_def)
  have enum: "enumerate 0 many_files = enumerate 0 xs @ [(499, ''part_499.csv''), (500, ''part_500.csv'')]"
  proof -
    have "enumerate 0 (xs @ [''part_499.csv'', ''part_500.csv'']) =
          enumerate 0 xs @ enumerate (0 + length xs) [''part_499.csv'', ''part_500.csv'']"
      by (rule enumerate_append_eq)
    then show ?thesis by (simp add: files len_xs)
  qed
  have ok: "\<forall>p \<in> set xs. \<exists>df. process_file ?env None p = Inr df"
    by (simp add: flat_process)
  have fill: "ingest_loop ?env 500 ?t None 501 (enumerate 0 xs) ([], v) = ([] @ ok_frames ?env None xs, v)"
    by (rule ingest_loop_fill [OF ok]) (simp_all add: len_xs)
  have b499: "[] @ ok_frames ?env None xs = replicate 499 ?F"
    by (simp add: flat_ok_frames len_xs)
  have down: "to_sql ?env d ?t df = Inl (SqlError ''connection lost'')" for d df
    by (simp add: flat_env_def down_to_sql_def)
  have r500: "replicate 499 ?F @ [?F] = replicate 500 ?F"
    using replicate_snoc [of 499 ?F] by simp
  have r501: "replicate 500 ?F @ [?F] = replicate 501 ?F"
    using replicate_snoc [of 500 ?F] by simp
  define w1 where "w1 = say [Print_error ''part_499.csv'' (SqlError ''connection lost'')]
      (say [Call_to_sql ?t (concat_diagonal (replicate 499 ?F @ [?F]))] v)"
  have s1: "loop_body ?env 500 ?t None 501 499 ''part_499.csv'' (replicate 499 ?F, v) = (replicate 499 ?F @ [?F], w1)"
    unfolding w1_def by (rule loop_body_flush_raise [OF flat_process _ down]) simp
  define w2 where "w2 = say [Print_error ''part_500.csv'' (SqlError ''connection lost'')]
      (say [Call_to_sql ?t (concat_diagonal (replicate 500 ?F @ [?F]))] w1)"
  have s2: "loop_body ?env 500 ?t None 501 500 ''part_500.csv'' (replicate 500 ?F, w1) = (replicate 500 ?F @ [?F], w2)"
    unfolding w2_def by (rule loop_body_flush_raise [OF flat_process _ down]) simp
  have run: "ingest_loop ?env 500 ?t None 501 (enumerate 0 many_files) ([], v) = (replicate 501 ?F, w2)"
    by (simp only: enum ingest_loop_append fill b499 ingest_loop.simps s1 r500 s2 r501)
  have g: "glob_glob ?env ''*.csv'' = many_files" by (simp add: flat_env_def)
  have "ingest_files ?env ''*.csv'' ?t None empty_world = say [Print_finished ?t] w2"
    by (simp add: ingest_files_def ingest_files_sized_def batch_size_def g len run flip: v_def)
  then show ?thesis
    by (simp add: w2_def w1_def v_def r500 r501 empty_world_def)
qed

text \<open>
  C2 amended. When the write of a flush raises, the handler of line 143 catches it: the
  error is printed for the current file, the database is what it was before the call (so
  what earlier flushes committed stays), the batch keeps its frames, and the loop goes on
  with the next file.
\<close>

theorem write_failure_is_caught:
  assumes "process_file env sm p = Inr df"
    and "bsize \<le> length b + 1 \<or> i + 1 = N"
    and "to_sql env (db w) t (concat_diagonal (b @ [df])) = Inl e"
  shows "ingest_loop env bsize t sm N ((i, p) # rest) (b, w) =
           ingest_loop env bsize t sm N rest
             (b @ [df], say [Call_to_sql t (concat_diagonal (b @ [df])), Print_error p e] w) \<and>
         db (snd (loop_body env bsize t sm N i p (b, w))) = db w \<and>
         trace (snd (loop_body env bsize t sm N i p (b, w))) =
           trace w @ [Call_to_sql t (concat_diagonal (b @ [df])), Print_error p e]"
proof -
  have "loop_body env bsize t sm N i p (b, w) =
     (b @ [df], say [Print_error p e] (say [Call_to_sql t (concat_diagonal (b @ [df]))] w))"
    using assms by (intro loop_body_flush_raise) auto
  moreover have "say [Print_error p e] (say [Call_to_sql t (concat_diagonal (b @ [df]))] w) =
      say [Call_to_sql t (concat_diagonal (b @ [df])), Print_error p e] w"
    by (simp add: say_def)
  ultimately show ?thesis by simp
qed

theorem write_failure_is_caught_witness:
  "ingest_loop (demo_env (\<lambda>pat. [''a.csv'', ''b.csv'']) down_to_sql log_drop) 1 ''raw_inventory'' None 2
       [(0, ''a.csv''), (1, ''b.csv'')] ([], empty_world) =
     ingest_loop (demo_env (\<lambda>pat. [''a.csv'', ''b.csv'']) down_to_sql log_drop) 1 ''raw_inventory'' None 2
       [(1, ''b.csv'')]
       ([cast_all nat_to_str sales_frame],
        say [Call_to_sql ''raw_inventory'' (concat_diagonal [cast_all nat_to_str sales_frame]),
             Print_error ''a.csv'' (SqlError ''connection lost'')] empty_world) \<and>
   db (snd (loop_body (demo_env (\<lambda>pat. [''a.csv'', ''b.csv'']) down_to_sql log_drop) 1 ''raw_inventory'' None 2
       0 ''a.csv'' ([], empty_world))) = [] \<and>
   trace (snd (loop_body (demo_env (\<lambda>pat. [''a.csv'', ''b.csv'']) down_to_sql log_drop) 1 ''raw_inventory'' None 2
       0 ''a.csv'' ([], empty_world))) =
     [Call_to_sql ''raw_inventory'' (concat_diagonal [cast_all nat_to_str sales_frame]),
      Print_error ''a.csv'' (SqlError ''connection lost'')]"
proof -
  let ?env = "demo_env (\<lambda>pat. [''a.csv'', ''b.csv'']) down_to_sql log_drop :: (nat, (string \<times> nat dataframe) list) env"
  have p: "process_file ?env None ''a.csv'' = Inr (cast_all nat_to_str sales_frame)"
    by (rule demo_process_None)
  have due: "(1::nat) \<le> length ([] :: nat dataframe list) + 1 \<or> (0::nat) + 1 = 2" by simp
  have fail: "to_sql ?env (db empty_world) ''raw_inventory'' (concat_diagonal ([] @ [cast_all nat_to_str sales_frame]))
      = Inl (SqlError ''connection lost'')"
    by (simp add: demo_env_def down_to_sql_def)
  show ?thesis
    using write_failure_is_caught [OF p due fail, of "[(1, ''b.csv'')]"]
    by (simp add: empty_world_def)
qed

subsection \<open>C9: the batch after a failed write\<close>

text \<open>
  C9. When the write of a flush raises, the batch is not cleared: it holds the frames it
  held before plus the frame of the current file. When the next file is processed and a
  flush is due (it always is when the failed flush was due to the batch size), the next
  call of \<^verbatim>\<open>to_sql\<close> writes the retained frames together with the new one; the batch
  is cleared only if that write succeeds. When the next file raises instead, the batch
  still holds the retained frames.
\<close>

theorem failed_flush_keeps_batch:
  assumes "process_file env sm p = Inr df"
    and "bsize \<le> length b + 1 \<or> i + 1 = N"
    and "to_sql env (db w) t (concat_diagonal (b @ [df])) = Inl e"
    and "process_file env sm p' = Inr df'"
    and "bsize \<le> length b + 2 \<or> i + 2 = N"
  shows "fst (loop_body env bsize t sm N i p (b, w)) = b @ [df] \<and>
         sql_writes (trace (snd (loop_body env bsize t sm N (i + 1) p' (loop_body env bsize t sm N i p (b, w))))) =
           sql_writes (trace w) @ [(t, concat_diagonal (b @ [df])), (t, concat_diagonal (b @ [df, df']))] \<and>
         fst (loop_body env bsize t sm N (i + 1) p' (loop_body env bsize t sm N i p (b, w))) =
           (case to_sql env (db w) t (concat_diagonal (b @ [df, df'])) of
              Inl e' \<Rightarrow> b @ [df, df'] | Inr d' \<Rightarrow> []) \<and>
         (process_file env sm q = Inl e2 \<longrightarrow>
            fst (loop_body env bsize t sm N (i + 1) q (loop_body env bsize t sm N i p (b, w))) = b @ [df])"
proof -
  define w1 where "w1 = say [Print_error p e] (say [Call_to_sql t (concat_diagonal (b @ [df]))] w)"
  have s1: "loop_body env bsize t sm N i p (b, w) = (b @ [df], w1)"
    unfolding w1_def using assms(1,2,3) by (intro loop_body_flush_raise) auto
  have due: "bsize \<le> Suc (length (b @ [df])) \<or> Suc (i + 1) = N"
    using assms(5) by auto
  have dbw1: "db w1 = db w" by (simp add: w1_def)
  have tr1: "sql_writes (trace w1) = sql_writes (trace w) @ [(t, concat_diagonal (b @ [df]))]"
    by (simp add: w1_def)
  have app: "(b @ [df]) @ [df'] = b @ [df, df']" by simp
  have skip: "process_file env sm q = Inl e2 \<longrightarrow>
      fst (loop_body env bsize t sm N (i + 1) q (loop_body env bsize t sm N i p (b, w))) = b @ [df]"
    by (simp add: s1 loop_body_raise)
  show ?thesis
  proof (cases "to_sql env (db w) t (concat_diagonal (b @ [df, df']))")
    case (Inl e')
    then have "to_sql env (db w1) t (concat_diagonal ((b @ [df]) @ [df'])) = Inl e'"
      by (simp add: dbw1)
    from loop_body_flush_raise [OF assms(4) due this] skip
    show ?thesis by (simp add: s1 tr1 Inl)
  next
    case (Inr d')
    then have "to_sql env (db w1) t (concat_diagonal ((b @ [df]) @ [df'])) = Inr d'"
      by (simp add: dbw1)
    from loop_body_flush_ok [OF assms(4) due this] skip
    show ?thesis by (simp add: s1 tr1 Inr)
  qed
qed

theorem failed_flush_keeps_batch_witness:
  "fst (loop_body (demo_env (\<lambda>pat. [''a.csv'', ''b.csv'']) down_to_sql log_drop) 1 ''raw_inventory'' None 2
       0 ''a.csv'' ([], empty_world)) = [cast_all nat_to_str sales_frame] \<and>
   sql_writes (trace (snd (loop_body (demo_env (\<lambda>pat. [''a.csv'', ''b.csv'']) down_to_sql log_drop) 1
       ''raw_inventory'' None 2 1 ''b.csv''
       (loop_body (demo_env (\<lambda>pat. [''a.csv'', ''b.csv'']) down_to_sql log_drop) 1 ''raw_inventory'' None 2
          0 ''a.csv'' ([], empty_world))))) =
     [(''raw_inventory'', concat_diagonal [cast_all nat_to_str sales_frame]),
      (''raw_inventory'', concat_diagonal [cast_all nat_to_str sales_frame, cast_all nat_to_str second_frame])] \<and>
   fst (loop_body (demo_env (\<lambda>pat. [''a.csv'', ''b.csv'']) down_to_sql log_drop) 1
       ''raw_inventory'' None 2 1 ''b.csv''
       (loop_body (demo_env (\<lambda>pat. [''a.csv'', ''b.csv'']) down_to_sql log_drop) 1 ''raw_inventory'' None 2
          0 ''a.csv'' ([], empty_world))) =
     [cast_all nat_to_str sales_frame, cast_all nat_to_str second_frame] \<and>
   fst (loop_body (demo_env (\<lambda>pat. [''a.csv'', ''b.csv'']) down_to_sql log_drop) 1
       ''raw_inventory'' None 2 1 ''missing.csv''
       (loop_body (demo_env (\<lambda>pat. [''a.csv'', ''b.csv'']) down_to_sql log_drop) 1 ''raw_inventory'' None 2
          0 ''a.csv'' ([], empty_world))) =
     [cast_all nat_to_str sales_frame]"
proof -
  let ?env = "demo_env (\<lambda>pat. [''a.csv'', ''b.csv'']) down_to_sql log_drop :: (nat, (string \<times> nat dataframe) list) env"
  have p: "process_file ?env None ''a.csv'' = Inr (cast_all nat_to_str sales_frame)"
    and p': "process_file ?env None ''b.csv'' = Inr (cast_all nat_to_str second_frame)"
    by (rule demo_process_None)+
  have due: "(1::nat) \<le> length ([] :: nat dataframe list) + 1 \<or> (0::nat) + 1 = 2" by simp
  have due': "(1::nat) \<le> length ([] :: nat dataframe list) + 2 \<or> (0::nat) + 2 = 2" by simp
  have down: "to_sql ?env d ''raw_inventory'' df = Inl (SqlError ''connection lost'')" for d df
    by (simp add: demo_env_def down_to_sql_def)
  have q: "process_file ?env None ''missing.csv'' = Inl (ReadError ''no data'')"
    by (simp add: process_file_def demo_env_def demo_read_def)
  show ?thesis
    using failed_flush_keeps_batch [OF p due down p' due', where w = empty_world
        and q = "''missing.csv''" and ?e2.0 = "ReadError ''no data''"] q
    by (simp add: empty_world_def down)
qed

subsection \<open>C4: the reconciled wide frame\<close>

lemma union_fold_set:
  "set (foldl (\<lambda>seen df. seen @ filter (\<lambda>c. c \<notin> set seen) (columns df)) acc dfs) =
     set acc \<union> (\<Union>df \<in> set dfs. set (columns df))"
  by (induction dfs arbitrary: acc) auto

lemma union_fold_distinct:
  "distinct acc \<Longrightarrow> \<forall>df \<in> set dfs. distinct (columns df) \<Longrightarrow>
   distinct (foldl (\<lambda>seen df. seen @ filter (\<lambda>c. c \<notin> set seen) (columns df)) acc dfs)"
proof (induction dfs arbitrary: acc)
  case Nil then show ?case by simp
next
  case (Cons df dfs)
  have "distinct (acc @ filter (\<lambda>c. c \<notin> set acc) (columns df))"
    using Cons.prems by auto
  then show ?case using Cons.IH Cons.prems(2) by simp
qed

lemma set_union_columns: "set (union_columns dfs) = (\<Union>df \<in> set dfs. set (columns df))"
  by (simp add: union_columns_def union_fold_set)

lemma distinct_union_columns: "\<forall>df \<in> set dfs. distinct (columns df) \<Longrightarrow> distinct (union_columns dfs)"
  by (simp add: union_columns_def union_fold_distinct)

lemma cell_at_absent: "c \<notin> set cols \<Longrightarrow> cell_at cols r c = None"
  unfolding cell_at_def by (metis map_of_eq_None_iff set_zip_leftD imageE prod.collapse)

lemma cell_at_present:
  "length r = length cols \<Longrightarrow> c \<in> set cols \<Longrightarrow> \<exists>v. cell_at cols r c = Some v"
  unfolding cell_at_def by (simp add: map_of_zip_is_Some [symmetric])

lemma cell_at_align_row:
  "c \<in> set schema \<Longrightarrow>
   cell_at schema (align_row schema cols r) c = Some (case cell_at cols r c of Some v \<Rightarrow> v | None \<Rightarrow> Null)"
  by (simp add: cell_at_def [of schema] align_row_def map_of_zip_map)

lemma length_align_row [simp]: "length (align_row schema cols r) = length schema"
  by (simp add: align_row_def)

lemma length_align_frame [simp]: "length (align_frame schema df) = length (rows df)"
  by (simp add: align_frame_def)

lemma columns_concat_diagonal [simp]: "columns (concat_diagonal dfs) = union_columns dfs"
  by (simp add: concat_diagonal_def Let_def)

lemma rows_concat_diagonal:
  "rows (concat_diagonal dfs) = concat (map (align_frame (union_columns dfs)) dfs)"
  by (simp add: concat_diagonal_def Let_def)

text \<open>A widened row agrees with its source row on the source columns and is null elsewhere.\<close>
lemma cell_at_widened:
  assumes "wf_frame df" and "r \<in> set (rows df)" and "c \<in> set schema"
  shows "cell_at schema (align_row schema (columns df) r) c =
           (if c \<in> set (columns df) then cell_at (columns df) r c else Some Null)"
proof (cases "c \<in> set (columns df)")
  case True
  have "length r = length (columns df)" using assms(1,2) by (simp add: wf_frame_def)
  then obtain v where "cell_at (columns df) r c = Some v"
    using True cell_at_present by blast
  then show ?thesis using True assms(3) by (simp add: cell_at_align_row)
next
  case False
  then show ?thesis using assms(3) by (simp add: cell_at_align_row cell_at_absent)
qed


lemma demo_frames_wf:
  "\<forall>df \<in> set [cast_all nat_to_str sales_frame, cast_all nat_to_str second_frame]. wf_frame df"
  by (simp add: wf_frame_def cast_all_def sales_frame_def second_frame_def)

lemma demo_frames_concat:
  "concat_diagonal [cast_all nat_to_str sales_frame, cast_all nat_to_str second_frame] =
     \<lparr>columns = [''tx_id'', ''store_id'', ''qty'', ''transaction_id'', ''quantity'', ''date_of_sale''],
      rows = [[Utf8 ''7'', Utf8 ''S1'', Utf8 ''3'', Null, Null, Null],
              [Utf8 ''8'', Utf8 ''S2'', Null, Null, Null, Null],
              [Null, Null, Null, Utf8 ''9'', Utf8 ''1'', Utf8 ''2024-01-02'']]\<rparr>"
  by (simp add: concat_diagonal_def union_columns_def align_frame_def align_row_def cell_at_def
      cast_all_def sales_frame_def second_frame_def int_to_str_def nat_to_str.simps)

text \<open>
  C4. For every batch of well-formed frames, whatever their columns: the header of the
  diagonal concatenation is the union of the headers of the batch, without repetition;
  it has as many rows as the frames of the batch together; every row has one cell per
  union column; every row of every frame of the batch occurs in it, with its own cells
  under the columns of its frame and null under every union column its frame lacks; and
  every row of the result is such a widened row of some frame of the batch.
\<close>

theorem concat_diagonal_union:
  assumes "\<forall>df \<in> set dfs. wf_frame df"
  shows "set (columns (concat_diagonal dfs)) = (\<Union>df \<in> set dfs. set (columns df)) \<and>
         distinct (columns (concat_diagonal dfs)) \<and>
         length (rows (concat_diagonal dfs)) = sum_list (map (\<lambda>df. length (rows df)) dfs) \<and>
         (\<forall>row \<in> set (rows (concat_diagonal dfs)). length row = length (columns (concat_diagonal dfs))) \<and>
         (\<forall>df \<in> set dfs. \<forall>r \<in> set (rows df). \<exists>row \<in> set (rows (concat_diagonal dfs)).
            \<forall>c \<in> set (columns (concat_diagonal dfs)).
              cell_at (columns (concat_diagonal dfs)) row c =
                (if c \<in> set (columns df) then cell_at (columns df) r c else Some Null)) \<and>
         (\<forall>row \<in> set (rows (concat_diagonal dfs)). \<exists>df \<in> set dfs. \<exists>r \<in> set (rows df).
            \<forall>c \<in> set (columns (concat_diagonal dfs)).
              cell_at (columns (concat_diagonal dfs)) row c =
                (if c \<in> set (columns df) then cell_at (columns df) r c else Some Null))"
proof -
  let ?U = "union_columns dfs"
  have d: "distinct ?U"
    using assms by (intro distinct_union_columns) (simp add: wf_frame_def)
  have len: "length (rows (concat_diagonal dfs)) = sum_list (map (\<lambda>df. length (rows df)) dfs)"
    by (simp add: rows_concat_diagonal length_concat comp_def)
  have wide: "\<forall>row \<in> set (rows (concat_diagonal dfs)). length row = length ?U"
    by (auto simp: rows_concat_diagonal align_frame_def)
  have fwd: "\<exists>row \<in> set (rows (concat_diagonal dfs)). \<forall>c \<in> set ?U.
              cell_at ?U row c = (if c \<in> set (columns df) then cell_at (columns df) r c else Some Null)"
    if "df \<in> set dfs" "r \<in> set (rows df)" for df r
  proof (intro bexI ballI)
    show "align_row ?U (columns df) r \<in> set (rows (concat_diagonal dfs))"
      using that by (auto simp: rows_concat_diagonal align_frame_def)
    fix c assume "c \<in> set ?U"
    then show "cell_at ?U (align_row ?U (columns df) r) c =
        (if c \<in> set (columns df) then cell_at (columns df) r c else Some Null)"
      using assms that by (intro cell_at_widened) auto
  qed
  have bwd: "\<exists>df \<in> set dfs. \<exists>r \<in> set (rows df). \<forall>c \<in> set ?U.
              cell_at ?U row c = (if c \<in> set (columns df) then cell_at (columns df) r c else Some Null)"
    if "row \<in> set (rows (concat_diagonal dfs))" for row
  proof -
    from that obtain df r where dr: "df \<in> set dfs" "r \<in> set (rows df)" "row = align_row ?U (columns df) r"
      by (auto simp: rows_concat_diagonal align_frame_def)
    have w: "wf_frame df" using assms dr(1) by blast
    have "\<forall>c \<in> set ?U. cell_at ?U row c = (if c \<in> set (columns df) then cell_at (columns df) r c else Some Null)"
      unfolding dr(3) using cell_at_widened [OF w dr(2)] by blast
    then show ?thesis using dr by blast
  qed
  show ?thesis
    using d len wide fwd bwd by (simp add: set_union_columns)
qed

theorem concat_diagonal_union_witness:
  "set (columns (concat_diagonal [cast_all nat_to_str sales_frame, cast_all nat_to_str second_frame])) =
     (\<Union>df \<in> set [cast_all nat_to_str sales_frame, cast_all nat_to_str second_frame]. set (columns df)) \<and>
   distinct (columns (concat_diagonal [cast_all nat_to_str sales_frame, cast_all nat_to_str second_frame])) \<and>
   length (rows (concat_diagonal [cast_all nat_to_str sales_frame, cast_all nat_to_str second_frame])) = 3 \<and>
   concat_diagonal [cast_all nat_to_str sales_frame, cast_all nat_to_str second_frame] =
     \<lparr>columns = [''tx_id'', ''store_id'', ''qty'', ''transaction_id'', ''quantity'', ''date_of_sale''],
      rows = [[Utf8 ''7'', Utf8 ''S1'', Utf8 ''3'', Null, Null, Null],
              [Utf8 ''8'', Utf8 ''S2'', Null, Null, Null, Null],
              [Null, Null, Null, Utf8 ''9'', Utf8 ''1'', Utf8 ''2024-01-02'']]\<rparr>"
proof -
  note u = concat_diagonal_union [OF demo_frames_wf]
  have a: "set (columns (concat_diagonal [cast_all nat_to_str sales_frame, cast_all nat_to_str second_frame])) =
     (\<Union>df \<in> set [cast_all nat_to_str sales_frame, cast_all nat_to_str second_frame]. set (columns df))"
    using u by (rule conjunct1)
  have b: "distinct (columns (concat_diagonal [cast_all nat_to_str sales_frame, cast_all nat_to_str second_frame]))"
    using u by (rule conjunct2 [THEN conjunct1])
  have "length (rows (concat_diagonal [cast_all nat_to_str sales_frame, cast_all nat_to_str second_frame])) =
      sum_list (map (\<lambda>df. length (rows df)) [cast_all nat_to_str sales_frame, cast_all nat_to_str second_frame])"
    using u by (rule conjunct2 [THEN conjunct2, THEN conjunct1])
  then have c: "length (rows (concat_diagonal [cast_all nat_to_str sales_frame, cast_all nat_to_str second_frame])) = 3"
    by (simp add: cast_all_def sales_frame_def second_frame_def)
  show ?thesis
    using a b c demo_frames_concat by (intro conjI)
qed

subsection \<open>C10: order of the rows written\<close>

lemma loop_body_shape:
  obtains (raise) e where "process_file env sm p = Inl e"
      and "loop_body env K t sm N i p (b, w) = (b, say [Print_error p e] w)"
  | (keep) df where "process_file env sm p = Inr df"
      and "loop_body env K t sm N i p (b, w) = (b @ [df], w)"
  | (flush_ok) df d' where "process_file env sm p = Inr df"
      and "to_sql env (db w) t (concat_diagonal (b @ [df])) = Inr d'"
      and "loop_body env K t sm N i p (b, w) =
             ([], say [Print_processed (i + 1) N] (say [Call_to_sql t (concat_diagonal (b @ [df]))] w\<lparr>db := d'\<rparr>))"
  | (flush_raise) df e where "process_file env sm p = Inr df"
      and "to_sql env (db w) t (concat_diagonal (b @ [df])) = Inl e"
      and "loop_body env K t sm N i p (b, w) =
             (b @ [df], say [Print_error p e] (say [Call_to_sql t (concat_diagonal (b @ [df]))] w))"
proof (cases "process_file env sm p")
  case (Inl e)
  then show ?thesis using raise loop_body_raise by blast
next
  case (Inr df)
  show ?thesis
  proof (cases "K \<le> Suc (length b) \<or> Suc i = N")
    case False
    then show ?thesis using keep Inr loop_body_keep by blast
  next
    case True
    show ?thesis
    proof (cases "to_sql env (db w) t (concat_diagonal (b @ [df]))")
      case (Inl e)
      then show ?thesis using flush_raise Inr loop_body_flush_raise [OF Inr True Inl] by blast
    next
      case Inr': (Inr d')
      then show ?thesis using flush_ok Inr loop_body_flush_ok [OF Inr True Inr'] by blast
    qed
  qed
qed







subsection \<open>C8: the tables are reset once per invocation\<close>

lemma loop_body_db_inv:
  assumes "Q (db w)" and "\<And>d df d'. Q d \<Longrightarrow> to_sql env d t df = Inr d' \<Longrightarrow> Q d'"
  shows "Q (db (snd (loop_body env K t sm N i p (b, w))))"
proof (cases rule: loop_body_shape [of env sm p K t N i b w])
  case (raise e)
  then show ?thesis by (simp add: assms(1))
next
  case (keep df)
  then show ?thesis by (simp add: assms(1))
next
  case (flush_ok df d')
  have "Q d'" using assms(1) flush_ok(2) by (rule assms(2))
  then show ?thesis by (simp add: flush_ok(3))
next
  case (flush_raise df e)
  then show ?thesis by (simp add: assms(1))
qed

lemma ingest_loop_db_inv:
  assumes "Q (db (snd st))" and "\<And>d df d'. Q d \<Longrightarrow> to_sql env d t df = Inr d' \<Longrightarrow> Q d'"
  shows "Q (db (snd (ingest_loop env K t sm N ips st)))"
  using assms(1)
proof (induction ips arbitrary: st)
  case Nil then show ?case by simp
next
  case (Cons ip ips)
  obtain i p where ip: "ip = (i, p)" by (cases ip)
  obtain b w where st: "st = (b, w)" by (cases st)
  have "Q (db w)" using Cons.prems by (simp add: st)
  then have "Q (db (snd (loop_body env K t sm N i p (b, w))))"
    by (rule loop_body_db_inv) (rule assms(2))
  then have "Q (db (snd (ingest_loop env K t sm N ips (loop_body env K t sm N i p (b, w)))))"
    by (rule Cons.IH)
  then show ?case by (simp only: ip st ingest_loop.simps)
qed

lemma ingest_files_db_inv:
  assumes "Q (db w)" and "\<And>d df d'. Q d \<Longrightarrow> to_sql env d t df = Inr d' \<Longrightarrow> Q d'"
  shows "Q (db (ingest_files_sized K env pat t sm w))"
proof -
  have "Q (db (snd (ingest_loop env K t sm (length (glob_glob env pat)) (enumerate 0 (glob_glob env pat))
      ([], say [Print_found (length (glob_glob env pat)) t] w))))"
    by (rule ingest_loop_db_inv, simp add: assms(1), rule assms(2))
  then show ?thesis by (simp add: ingest_files_sized_def Let_def)
qed

lemma loop_body_trace:
  "\<exists>es. trace (snd (loop_body env K t sm N i p (b, w))) = trace w @ es \<and> drops es = []"
  by (cases rule: loop_body_shape [of env sm p K t N i b w]) auto

lemma ingest_loop_trace:
  "\<exists>es. trace (snd (ingest_loop env K t sm N ips st)) = trace (snd st) @ es \<and> drops es = []"
proof (induction ips arbitrary: st)
  case Nil then show ?case by simp
next
  case (Cons ip ips)
  obtain i p where ip: "ip = (i, p)" by (cases ip)
  obtain b w where st: "st = (b, w)" by (cases st)
  obtain es1 where e1: "trace (snd (loop_body env K t sm N i p (b, w))) = trace w @ es1" "drops es1 = []"
    using loop_body_trace by blast
  obtain es2 where e2: "trace (snd (ingest_loop env K t sm N ips (loop_body env K t sm N i p (b, w)))) =
      trace (snd (loop_body env K t sm N i p (b, w))) @ es2" "drops es2 = []"
    using Cons.IH by blast
  have "trace (snd (ingest_loop env K t sm N (ip # ips) st)) = trace (snd st) @ (es1 @ es2)"
    unfolding ip st by (simp add: e1 e2)
  moreover have "drops (es1 @ es2) = []" by (simp add: e1 e2)
  ultimately show ?case by blast
qed

lemma ingest_files_trace:
  "\<exists>es. trace (ingest_files_sized K env pat t sm w) = trace w @ es \<and> drops es = []"
proof -
  let ?n = "length (glob_glob env pat)"
  obtain es where "trace (snd (ingest_loop env K t sm ?n (enumerate 0 (glob_glob env pat))
      ([], say [Print_found ?n t] w))) = trace (snd ([] :: 'a dataframe list, say [Print_found ?n t] w)) @ es"
    "drops es = []"
    using ingest_loop_trace by blast
  then have "trace (ingest_files_sized K env pat t sm w) = trace w @ (Print_found ?n t # es @ [Print_finished t])"
    "drops (Print_found ?n t # es @ [Print_finished t]) = []"
    by (simp_all add: ingest_files_sized_def Let_def)
  then show ?thesis by blast
qed

text \<open>Two runs that start from databases related by \<open>R\<close> stay related, for a sink that respects \<open>R\<close>.\<close>
lemma loop_body_rel:
  assumes "R (db w1) (db w2)"
    and "\<And>d1 d2 df. R d1 d2 \<Longrightarrow> rel_sum (=) R (to_sql env d1 t df) (to_sql env d2 t df)"
  shows "fst (loop_body env K t sm N i p (b, w1)) = fst (loop_body env K t sm N i p (b, w2)) \<and>
         R (db (snd (loop_body env K t sm N i p (b, w1)))) (db (snd (loop_body env K t sm N i p (b, w2))))"
proof (cases "process_file env sm p")
  case (Inl e)
  then show ?thesis using assms(1) by (simp add: loop_body_raise)
next
  case (Inr df)
  show ?thesis
  proof (cases "K \<le> Suc (length b) \<or> Suc i = N")
    case False
    then show ?thesis using assms(1) Inr by (simp add: loop_body_keep)
  next
    case True
    let ?F = "concat_diagonal (b @ [df])"
    have rel: "rel_sum (=) R (to_sql env (db w1) t ?F) (to_sql env (db w2) t ?F)"
      using assms(1) by (rule assms(2))
    show ?thesis
    proof (cases "to_sql env (db w1) t ?F")
      case l1: (Inl e1)
      then obtain e2 where l2: "to_sql env (db w2) t ?F = Inl e2"
        using rel by (cases "to_sql env (db w2) t ?F") simp_all
      show ?thesis
        using assms(1) by (simp add: loop_body_flush_raise [OF Inr True l1] loop_body_flush_raise [OF Inr True l2])
    next
      case r1: (Inr d1)
      then obtain d2 where r2: "to_sql env (db w2) t ?F = Inr d2" and "R d1 d2"
        using rel by (cases "to_sql env (db w2) t ?F") simp_all
      then show ?thesis
        by (simp add: loop_body_flush_ok [OF Inr True r1] loop_body_flush_ok [OF Inr True r2])
    qed
  qed
qed

lemma ingest_loop_rel:
  assumes "fst st1 = fst st2" and "R (db (snd st1)) (db (snd st2))"
    and "\<And>d1 d2 df. R d1 d2 \<Longrightarrow> rel_sum (=) R (to_sql env d1 t df) (to_sql env d2 t df)"
  shows "fst (ingest_loop env K t sm N ips st1) = fst (ingest_loop env K t sm N ips st2) \<and>
         R (db (snd (ingest_loop env K t sm N ips st1))) (db (snd (ingest_loop env K t sm N ips st2)))"
  using assms(1,2)
proof (induction ips arbitrary: st1 st2)
  case Nil then show ?case by simp
next
  case (Cons ip ips)
  obtain i p where ip: "ip = (i, p)" by (cases ip)
  obtain b w1 where st1: "st1 = (b, w1)" by (cases st1)
  obtain w2 where st2: "st2 = (b, w2)" using Cons.prems(1) st1 by (cases st2) auto
  have "R (db w1) (db w2)" using Cons.prems(2) by (simp add: st1 st2)
  then have "fst (loop_body env K t sm N i p (b, w1)) = fst (loop_body env K t sm N i p (b, w2)) \<and>
      R (db (snd (loop_body env K t sm N i p (b, w1)))) (db (snd (loop_body env K t sm N i p (b, w2))))"
    by (rule loop_body_rel) (rule assms(3))
  then have "fst (ingest_loop env K t sm N ips (loop_body env K t sm N i p (b, w1))) =
        fst (ingest_loop env K t sm N ips (loop_body env K t sm N i p (b, w2))) \<and>
      R (db (snd (ingest_loop env K t sm N ips (loop_body env K t sm N i p (b, w1)))))
        (db (snd (ingest_loop env K t sm N ips (loop_body env K t sm N i p (b, w2)))))"
    by (intro Cons.IH) (rule conjunct1, assumption, rule conjunct2, assumption)
  then show ?case by (simp only: ip st1 st2 ingest_loop.simps)
qed

lemma ingest_files_rel:
  assumes "R (db w1) (db w2)"
    and "\<And>d1 d2 df. R d1 d2 \<Longrightarrow> rel_sum (=) R (to_sql env d1 t df) (to_sql env d2 t df)"
  shows "R (db (ingest_files_sized K env pat t sm w1)) (db (ingest_files_sized K env pat t sm w2))"
proof -
  let ?n = "length (glob_glob env pat)"
  have "R (db (snd (ingest_loop env K t sm ?n (enumerate 0 (glob_glob env pat)) ([], say [Print_found ?n t] w1))))
          (db (snd (ingest_loop env K t sm ?n (enumerate 0 (glob_glob env pat)) ([], say [Print_found ?n t] w2))))"
    by (rule ingest_loop_rel [THEN conjunct2], simp, simp add: assms(1), rule assms(2))
  then show ?thesis by (simp add: ingest_files_sized_def Let_def)
qed

lemma pg_to_sql_other: "pg_to_sql d t df = Inr d' \<Longrightarrow> t' \<noteq> t \<Longrightarrow> d' t' = d t'"
  by (auto simp: pg_to_sql_def split: option.splits if_splits)

lemma pg_to_sql_rel:
  "d1 t = d2 t \<Longrightarrow> rel_sum (=) (\<lambda>a b. a t = b t) (pg_to_sql d1 t df) (pg_to_sql d2 t df)"
  by (auto simp: pg_to_sql_def split: option.splits)

lemma pg_to_sql_prefix:
  assumes "\<exists>tab'. d t' = Some tab' \<and> columns tab' = columns tab \<and> prefix (rows tab) (rows tab')"
    and "pg_to_sql d t df = Inr d'"
  shows "\<exists>tab'. d' t' = Some tab' \<and> columns tab' = columns tab \<and> prefix (rows tab) (rows tab')"
proof (cases "t' = t")
  case False
  then show ?thesis using assms pg_to_sql_other by metis
next
  case True
  from assms(1) obtain tab1 where t1: "d t = Some tab1" "columns tab1 = columns tab" "prefix (rows tab) (rows tab1)"
    using True by blast
  have "d' t = Some (tab1\<lparr>rows := rows tab1 @ align_frame (columns tab1) df\<rparr>)"
    using assms(2) t1(1) by (auto simp: pg_to_sql_def split: if_splits)
  then show ?thesis using t1 True by (auto intro: prefix_order.trans)
qed

lemma main_pg:
  assumes "to_sql env = pg_to_sql" and "drop_table_if_exists env = pg_drop_table_if_exists"
  shows "main env w =
    Inr (say [Print_msg ''All Data Successfully Loaded into Postgres!'']
      (ingest_files env (path_join (INVENTORY_DIR env) ''*.csv'') ''raw_inventory'' None
        (say [Print_msg ''--- Processing INVENTORY Data ---'']
          (ingest_files env (path_join (SALES_DIR env) ''*.csv'') ''raw_sales'' (Some SALES_SCHEMA_MAP)
            (say [Print_msg ''--- Processing SALES Data ---'']
              (say [Execute_drop ''raw_sales'', Execute_drop ''raw_inventory'', Commit,
                    Print_msg ''Cleared old raw tables.'']
                (say [Print_msg ''Starting Ingestion Pipeline...''] w
                   \<lparr>db := (db w)(''raw_sales'' := None, ''raw_inventory'' := None)\<rparr>)))))))"
  by (simp add: main_def assms pg_drop_table_if_exists_def Let_def)

lemma demo_patterns:
  "path_join (SALES_DIR (demo_env g s d)) ''*.csv'' = ''/repo/data/raw_sales/*.csv''"
  "path_join (INVENTORY_DIR (demo_env g s d)) ''*.csv'' = ''/repo/data/inventory/*.csv''"
  by (simp_all add: SALES_DIR_def INVENTORY_DIR_def path_join_def demo_env_def)

lemma demo_process_sales:
  "process_file (demo_env g s d) (Some SALES_SCHEMA_MAP) ''a.csv'' =
     Inr \<lparr>columns = [''transaction_id'', ''store_id'', ''quantity''],
          rows = [[Utf8 ''7'', Utf8 ''S1'', Utf8 ''3''], [Utf8 ''8'', Utf8 ''S2'', Null]]\<rparr>"
  "process_file (demo_env g s d) (Some SALES_SCHEMA_MAP) ''b.csv'' =
     Inr \<lparr>columns = [''transaction_id'', ''quantity'', ''date_of_sale''],
          rows = [[Utf8 ''9'', Utf8 ''1'', Utf8 ''2024-01-02'']]\<rparr>"
  by (simp_all add: process_file_def demo_env_def demo_read_def normalize_columns_Some new_name_def
      SALES_SCHEMA_MAP_def sales_frame_def second_frame_def cast_all_def int_to_str_def nat_to_str.simps)

lemma demo_sales_table:
  "db (ingest_files (demo_env demo_glob pg_to_sql pg_drop_table_if_exists) ''/repo/data/raw_sales/*.csv''
         ''raw_sales'' (Some SALES_SCHEMA_MAP) \<lparr>db = Map.empty, trace = tr\<rparr>) ''raw_sales'' =
     Some \<lparr>columns = [''transaction_id'', ''store_id'', ''quantity'', ''date_of_sale''],
           rows = [[Utf8 ''7'', Utf8 ''S1'', Utf8 ''3'', Null],
                   [Utf8 ''8'', Utf8 ''S2'', Null, Null],
                   [Utf8 ''9'', Null, Utf8 ''1'', Utf8 ''2024-01-02'']]\<rparr>"
proof -
  let ?env = "demo_env demo_glob pg_to_sql pg_drop_table_if_exists :: (nat, nat database) env"
  have g: "glob_glob ?env ''/repo/data/raw_sales/*.csv'' = [''a.csv'', ''b.csv'']"
    by (simp add: demo_env_def demo_glob_def)
  have ts: "to_sql ?env = pg_to_sql" by (simp add: demo_env_def)
  have cd: "concat_diagonal
      [\<lparr>columns = [''transaction_id'', ''store_id'', ''quantity''],
        rows = [[Utf8 ''7'', Utf8 ''S1'', Utf8 ''3''], [Utf8 ''8'', Utf8 ''S2'', Null :: nat cell]]\<rparr>,
       \<lparr>columns = [''transaction_id'', ''quantity'', ''date_of_sale''],
        rows = [[Utf8 ''9'', Utf8 ''1'', Utf8 ''2024-01-02'']]\<rparr>] =
     \<lparr>columns = [''transaction_id'', ''store_id'', ''quantity'', ''date_of_sale''],
      rows = [[Utf8 ''7'', Utf8 ''S1'', Utf8 ''3'', Null],
              [Utf8 ''8'', Utf8 ''S2'', Null, Null],
              [Utf8 ''9'', Null, Utf8 ''1'', Utf8 ''2024-01-02'']]\<rparr>"
    by (simp add: concat_diagonal_def union_columns_def align_frame_def align_row_def cell_at_def)
  show ?thesis
    by (simp add: ingest_files_def ingest_files_sized_def batch_size_def g loop_body_def
        demo_process_sales cd ts pg_to_sql_def say_def Let_def)
qed

text \<open>
  C8, on the relational sink. An invocation of \<^verbatim>\<open>main\<close> always gets past the drops,
  whether or not the tables exist, and its trace starts with one drop of each target
  table, committed, and contains no other drop: \<^verbatim>\<open>ingest_files\<close> never drops.
  Dropping unbinds the table and leaves a database without the table as it is. A run of
  \<^verbatim>\<open>ingest_files\<close> keeps every existing table's header and keeps its rows as a prefix
  of the rows afterwards: writes append. Hence the two target tables after an invocation
  do not depend on the database it started from: after a second invocation (started from
  the world \<open>w\<close> the first one left) they are what the same invocation leaves when started
  from any other world \<open>v\<close>, such as one with an empty database.
\<close>

theorem table_reset_once:
  fixes env :: "('f, 'f database) env"
  assumes pg: "to_sql env = pg_to_sql" and pgd: "drop_table_if_exists env = pg_drop_table_if_exists"
  shows "(\<exists>w' es. main env w = Inr w' \<and>
            trace w' = trace w @ [Print_msg ''Starting Ingestion Pipeline...'',
                                  Execute_drop ''raw_sales'', Execute_drop ''raw_inventory'', Commit] @ es \<and>
            drops es = []) \<and>
         drops (trace (ingest_files env pat t sm w)) = drops (trace w) \<and>
         pg_drop_table_if_exists d t = Inr (d(t := None)) \<and>
         (d t = None \<longrightarrow> pg_drop_table_if_exists d t = Inr d) \<and>
         (db w t' = Some tab \<longrightarrow>
            (\<exists>tab'. db (ingest_files env pat t sm w) t' = Some tab' \<and> columns tab' = columns tab \<and>
                    prefix (rows tab) (rows tab'))) \<and>
         (main env w = Inr w' \<and> main env v = Inr v' \<longrightarrow>
            db w' ''raw_sales'' = db v' ''raw_sales'' \<and> db w' ''raw_inventory'' = db v' ''raw_inventory'')"
proof -
  let ?sp = "path_join (SALES_DIR env) ''*.csv''"
  let ?ip = "path_join (INVENTORY_DIR env) ''*.csv''"
  let ?rs = "''raw_sales''" and ?ri = "''raw_inventory''"
  let ?w0 = "\<lambda>w. say [Print_msg ''--- Processing SALES Data ---'']
              (say [Execute_drop ?rs, Execute_drop ?ri, Commit, Print_msg ''Cleared old raw tables.'']
                (say [Print_msg ''Starting Ingestion Pipeline...''] w
                   \<lparr>db := (db w)(?rs := None, ?ri := None)\<rparr>))"
  let ?w1 = "\<lambda>w. ingest_files env ?sp ?rs (Some SALES_SCHEMA_MAP) (?w0 w)"
  let ?w2 = "\<lambda>w. say [Print_msg ''--- Processing INVENTORY Data ---''] (?w1 w)"
  let ?w3 = "\<lambda>w. ingest_files env ?ip ?ri None (?w2 w)"
  let ?w4 = "\<lambda>w. say [Print_msg ''All Data Successfully Loaded into Postgres!''] (?w3 w)"
  have m: "main env u = Inr (?w4 u)" for u
    by (rule main_pg [OF pg pgd])
  obtain es1 where e1: "trace (?w1 w) = trace (?w0 w) @ es1" "drops es1 = []"
    using ingest_files_trace [of batch_size env ?sp ?rs "Some SALES_SCHEMA_MAP" "?w0 w"]
    unfolding ingest_files_def by blast
  obtain es2 where e2: "trace (?w3 w) = trace (?w2 w) @ es2" "drops es2 = []"
    using ingest_files_trace [of batch_size env ?ip ?ri None "?w2 w"]
    unfolding ingest_files_def by blast
  let ?es = "[Print_msg ''Cleared old raw tables.'', Print_msg ''--- Processing SALES Data ---''] @ es1 @
      [Print_msg ''--- Processing INVENTORY Data ---''] @ es2 @
      [Print_msg ''All Data Successfully Loaded into Postgres!'']"
  have "trace (?w4 w) = trace w @ [Print_msg ''Starting Ingestion Pipeline...'',
                                  Execute_drop ?rs, Execute_drop ?ri, Commit] @ ?es"
    by (simp add: e1(1) e2(1))
  moreover have "drops ?es = []" by (simp add: e1(2) e2(2))
  ultimately have c1: "\<exists>w' es. main env w = Inr w' \<and>
            trace w' = trace w @ [Print_msg ''Starting Ingestion Pipeline...'',
                                  Execute_drop ?rs, Execute_drop ?ri, Commit] @ es \<and>
            drops es = []"
    using m [of w] by blast
  have c2: "drops (trace (ingest_files env pat t sm w)) = drops (trace w)"
    using ingest_files_trace [of batch_size env pat t sm w] unfolding ingest_files_def by auto
  have c3: "pg_drop_table_if_exists d t = Inr (d(t := None))"
    by (simp add: pg_drop_table_if_exists_def)
  have c4: "d t = None \<longrightarrow> pg_drop_table_if_exists d t = Inr d"
    by (auto simp: pg_drop_table_if_exists_def)
  have c5: "db w t' = Some tab \<longrightarrow>
            (\<exists>tab'. db (ingest_files env pat t sm w) t' = Some tab' \<and> columns tab' = columns tab \<and>
                    prefix (rows tab) (rows tab'))"
  proof
    assume a: "db w t' = Some tab"
    let ?Q = "\<lambda>d. \<exists>tab'. d t' = Some tab' \<and> columns tab' = columns tab \<and> prefix (rows tab) (rows tab')"
    have "?Q (db w)" using a by simp
    then have "?Q (db (ingest_files_sized batch_size env pat t sm w))"
    proof (rule ingest_files_db_inv [where Q = ?Q])
      fix d df d' assume "?Q d" "to_sql env d t df = Inr d'"
      then show "?Q d'" unfolding pg by (rule pg_to_sql_prefix)
    qed
    then show "\<exists>tab'. db (ingest_files env pat t sm w) t' = Some tab' \<and> columns tab' = columns tab \<and>
                    prefix (rows tab) (rows tab')"
      by (simp add: ingest_files_def)
  qed
  have other: "db (ingest_files env p tn s u) tn' = db u tn'" if "tn' \<noteq> tn" for p tn s u tn'
  proof -
    let ?Q = "\<lambda>d. d tn' = db u tn'"
    have "?Q (db u)" by simp
    then have "?Q (db (ingest_files_sized batch_size env p tn s u))"
    proof (rule ingest_files_db_inv [where Q = ?Q])
      fix d df d' assume "?Q d" "to_sql env d tn df = Inr d'"
      then show "?Q d'" using that pg_to_sql_other [of d tn df d' tn'] by (simp add: pg)
    qed
    then show ?thesis by (simp add: ingest_files_def)
  qed
  have same: "db (ingest_files env p tn s u1) tn = db (ingest_files env p tn s u2) tn"
    if "db u1 tn = db u2 tn" for p tn s u1 u2
  proof -
    let ?R = "\<lambda>a b. a tn = b tn"
    have "?R (db u1) (db u2)" using that by simp
    then have "?R (db (ingest_files_sized batch_size env p tn s u1)) (db (ingest_files_sized batch_size env p tn s u2))"
    proof (rule ingest_files_rel [where R = ?R])
      fix d1 d2 :: "'f database" and df assume "d1 tn = d2 tn"
      then show "rel_sum (=) ?R (to_sql env d1 tn df) (to_sql env d2 tn df)"
        unfolding pg by (rule pg_to_sql_rel)
    qed
    then show ?thesis by (simp add: ingest_files_def)
  qed
  have ne: "?rs \<noteq> ?ri" by simp
  have s1: "db (?w1 w) ?rs = db (?w1 v) ?rs"
    by (rule same) simp
  have i1: "db (?w1 u) ?ri = None" for u
    using other [of ?ri ?rs ?sp "Some SALES_SCHEMA_MAP" "?w0 u"] by simp
  have s4: "db (?w4 w) ?rs = db (?w4 v) ?rs"
    using other [of ?rs ?ri ?ip None "?w2 w"] other [of ?rs ?ri ?ip None "?w2 v"] s1 by simp
  have "db (?w3 w) ?ri = db (?w3 v) ?ri"
    by (rule same) (simp add: i1)
  then have i4: "db (?w4 w) ?ri = db (?w4 v) ?ri" by simp
  have c6: "main env w = Inr w' \<and> main env v = Inr v' \<longrightarrow>
            db w' ?rs = db v' ?rs \<and> db w' ?ri = db v' ?ri"
    using s4 i4 by (simp only: m sum.inject) blast
  show ?thesis
    using c1 c2 c3 c4 c5 c6 by (intro conjI)
qed

theorem table_reset_once_witness:
  "(\<exists>w' es. main (demo_env demo_glob pg_to_sql pg_drop_table_if_exists) stale_world = Inr w' \<and>
      trace w' = trace stale_world @ [Print_msg ''Starting Ingestion Pipeline...'',
                                     Execute_drop ''raw_sales'', Execute_drop ''raw_inventory'', Commit] @ es \<and>
      drops es = []) \<and>
   pg_drop_table_if_exists (Map.empty :: nat database) ''raw_sales'' = Inr Map.empty \<and>
   (\<exists>tab'. db (ingest_files (demo_env demo_glob pg_to_sql pg_drop_table_if_exists)
                 ''/repo/data/raw_sales/*.csv'' ''raw_sales'' (Some SALES_SCHEMA_MAP) stale_world) ''raw_sales'' =
             Some tab' \<and>
           columns tab' = [''transaction_id''] \<and> prefix [[Utf8 ''old'']] (rows tab')) \<and>
   (\<exists>w' v'. main (demo_env demo_glob pg_to_sql pg_drop_table_if_exists) stale_world = Inr w' \<and>
      main (demo_env demo_glob pg_to_sql pg_drop_table_if_exists) fresh_world = Inr v' \<and>
      db w' ''raw_sales'' = db v' ''raw_sales'' \<and> db w' ''raw_inventory'' = db v' ''raw_inventory'' \<and>
      db w' ''raw_sales'' =
        Some \<lparr>columns = [''transaction_id'', ''store_id'', ''quantity'', ''date_of_sale''],
              rows = [[Utf8 ''7'', Utf8 ''S1'', Utf8 ''3'', Null],
                      [Utf8 ''8'', Utf8 ''S2'', Null, Null],
                      [Utf8 ''9'', Null, Utf8 ''1'', Utf8 ''2024-01-02'']]\<rparr>)"
proof -
  let ?env = "demo_env demo_glob pg_to_sql pg_drop_table_if_exists :: (nat, nat database) env"
  let ?old = "\<lparr>columns = [''transaction_id''], rows = [[Utf8 ''old'' :: nat cell]]\<rparr>"
  have pg: "to_sql ?env = pg_to_sql" and pgd: "drop_table_if_exists ?env = pg_drop_table_if_exists"
    by (simp_all add: demo_env_def)
  have A: "\<exists>w' es. main ?env stale_world = Inr w' \<and>
      trace w' = trace stale_world @ [Print_msg ''Starting Ingestion Pipeline...'',
                                     Execute_drop ''raw_sales'', Execute_drop ''raw_inventory'', Commit] @ es \<and>
      drops es = []"
    using table_reset_once [OF pg pgd, where w = stale_world] by (rule conjunct1)
  then obtain w' where w': "main ?env stale_world = Inr w'" by blast
  have mf: "main ?env fresh_world = Inr
     (say [Print_msg ''All Data Successfully Loaded into Postgres!'']
      (ingest_files ?env ''/repo/data/inventory/*.csv'' ''raw_inventory'' None
        (say [Print_msg ''--- Processing INVENTORY Data ---'']
          (ingest_files ?env ''/repo/data/raw_sales/*.csv'' ''raw_sales'' (Some SALES_SCHEMA_MAP)
            (say [Print_msg ''--- Processing SALES Data ---'']
              (say [Execute_drop ''raw_sales'', Execute_drop ''raw_inventory'', Commit,
                    Print_msg ''Cleared old raw tables.'']
                (say [Print_msg ''Starting Ingestion Pipeline...''] fresh_world
                   \<lparr>db := (db fresh_world)(''raw_sales'' := None, ''raw_inventory'' := None)\<rparr>)))))))"
    (is "_ = Inr ?v'")
    using main_pg [OF pg pgd, of fresh_world] by (simp only: demo_patterns)
  note T = table_reset_once [OF pg pgd, where w = stale_world and v = fresh_world
      and d = "Map.empty" and t = "''raw_sales''" and t' = "''raw_sales''" and tab = ?old
      and pat = "''/repo/data/raw_sales/*.csv''" and sm = "Some SALES_SCHEMA_MAP"
      and w' = w' and v' = ?v']
  have B: "pg_drop_table_if_exists (Map.empty :: nat database) ''raw_sales'' = Inr Map.empty"
    using T [THEN conjunct2, THEN conjunct2, THEN conjunct2, THEN conjunct1] by simp
  have "db stale_world ''raw_sales'' = Some ?old" by (simp add: stale_world_def)
  then have C: "\<exists>tab'. db (ingest_files ?env ''/repo/data/raw_sales/*.csv'' ''raw_sales''
                 (Some SALES_SCHEMA_MAP) stale_world) ''raw_sales'' = Some tab' \<and>
           columns tab' = [''transaction_id''] \<and> prefix [[Utf8 ''old'']] (rows tab')"
    using T [THEN conjunct2, THEN conjunct2, THEN conjunct2, THEN conjunct2, THEN conjunct1] by simp
  have eq: "db w' ''raw_sales'' = db ?v' ''raw_sales'' \<and> db w' ''raw_inventory'' = db ?v' ''raw_inventory''"
    using T [THEN conjunct2, THEN conjunct2, THEN conjunct2, THEN conjunct2, THEN conjunct2] w' mf
    by blast
  have other: "db (ingest_files ?env p ''raw_inventory'' s u) ''raw_sales'' = db u ''raw_sales''" for p s u
  proof -
    have "db u ''raw_sales'' = db u ''raw_sales''" by simp
    then have "db (ingest_files_sized batch_size ?env p ''raw_inventory'' s u) ''raw_sales'' = db u ''raw_sales''"
    proof (rule ingest_files_db_inv [where Q = "\<lambda>d. d ''raw_sales'' = db u ''raw_sales''"])
      fix d :: "nat database" and df d'
      assume "d ''raw_sales'' = db u ''raw_sales''" "to_sql ?env d ''raw_inventory'' df = Inr d'"
      then show "d' ''raw_sales'' = db u ''raw_sales''"
        using pg_to_sql_other [of d "''raw_inventory''" df d' "''raw_sales''"] by (simp add: pg)
    qed
    then show ?thesis by (simp add: ingest_files_def)
  qed
  have val: "db ?v' ''raw_sales'' =
        Some \<lparr>columns = [''transaction_id'', ''store_id'', ''quantity'', ''date_of_sale''],
              rows = [[Utf8 ''7'', Utf8 ''S1'', Utf8 ''3'', Null],
                      [Utf8 ''8'', Utf8 ''S2'', Null, Null],
                      [Utf8 ''9'', Null, Utf8 ''1'', Utf8 ''2024-01-02'']]\<rparr>"
    using demo_sales_table [of "[Print_msg ''Starting Ingestion Pipeline...'', Execute_drop ''raw_sales'',
        Execute_drop ''raw_inventory'', Commit, Print_msg ''Cleared old raw tables.'',
        Print_msg ''--- Processing SALES Data ---'']"]
    by (simp add: other) (simp add: say_def fresh_world_def)
  have D: "\<exists>w' v'. main ?env stale_world = Inr w' \<and> main ?env fresh_world = Inr v' \<and>
      db w' ''raw_sales'' = db v' ''raw_sales'' \<and> db w' ''raw_inventory'' = db v' ''raw_inventory'' \<and>
      db w' ''raw_sales'' =
        Some \<lparr>columns = [''transaction_id'', ''store_id'', ''quantity'', ''date_of_sale''],
              rows = [[Utf8 ''7'', Utf8 ''S1'', Utf8 ''3'', Null],
                      [Utf8 ''8'', Utf8 ''S2'', Null, Null],
                      [Utf8 ''9'', Null, Utf8 ''1'', Utf8 ''2024-01-02'']]\<rparr>"
    using w' mf eq val by (intro exI [of _ w'] exI [of _ ?v']) simp
  show ?thesis using A B C D by (intro conjI)
qed

end
